theory Spec2Isabelle
  imports Main "HOL-Library.Word" "HOL-Library.Sublist"
begin

unbundle bit_operations_syntax

section \<open>Data model (client.go, listener.go)\<close>

text \<open>
  Go strings and byte slices are sequences of bytes: \<open>string\<close> is a list of 8-bit
  characters, \<open>net.HardwareAddr\<close> and \<open>net.IP\<close> are lists of 8-bit words. A nil
  \<open>net.IP\<close> is \<open>None\<close>.
\<close>

type_synonym byte = "8 word"

text \<open>
  The error values that can leave the package.
  \<^item> \<open>MalformedRecord devStr\<close> is the value of
    \<^verbatim>\<open>fmt.Errorf("Device string does not contain enough parts: %q", devStr)\<close>;
  \<^item> \<open>InvalidAddress s\<close> is \<^verbatim>\<open>&net.AddrError{Err: "invalid MAC address", Addr: s}\<close>;
  \<^item> \<open>InvalidNumber s e\<close> is the \<^verbatim>\<open>*strconv.NumError\<close> of \<open>Atoi\<close> with \<^verbatim>\<open>Num: s, Err: e\<close>;
  \<^item> \<open>LoginStatus c\<close> and \<open>DevicesStatus c\<close> are the two status-code errors of
    \<open>Login\<close> and \<open>Devices\<close>;
  \<^item> \<open>LibraryError msg\<close> stands for an error of the HTTP client or the XML decoder.
\<close>

datatype NumErr = ErrSyntax | ErrRange

datatype error =
    MalformedRecord string
  | InvalidAddress string
  | InvalidNumber string NumErr
  | LoginStatus int
  | DevicesStatus int
  | LibraryError string

record AttachedDevice =
  IP :: "byte list option"
  Name :: string
  MAC :: "byte list"
  Type :: string
  LinkRate :: int
  Signal :: int

datatype DeviceChange = DeviceAdded | DeviceRemoved

record ChangedDevice =
  Device :: AttachedDevice
  Change :: DeviceChange

section \<open>Library functions used by the package\<close>

subsection \<open>\<open>net.HardwareAddr.String\<close>\<close>

definition hexDigit :: string where
  "hexDigit = ''0123456789abcdef''"

fun HardwareAddr_String_loop :: "nat \<Rightarrow> byte list \<Rightarrow> string \<Rightarrow> string" where
  "HardwareAddr_String_loop i [] buf = buf"
| "HardwareAddr_String_loop i (b # bs) buf =
     HardwareAddr_String_loop (Suc i) bs
       ((if 0 < i then buf @ '':'' else buf)
          @ [hexDigit ! unat (drop_bit 4 b), hexDigit ! unat (b AND 0xF)])"

definition HardwareAddr_String :: "byte list \<Rightarrow> string" where
  "HardwareAddr_String a = (if length a = 0 then '''' else HardwareAddr_String_loop 0 a '''')"

subsection \<open>\<open>strings.Split\<close> with a one-byte separator\<close>

fun Split :: "string \<Rightarrow> char \<Rightarrow> string list" where
  "Split [] sep = [[]]"
| "Split (c # cs) sep =
     (if c = sep then [] # Split cs sep
      else (case Split cs sep of
              [] \<Rightarrow> [[c]]
            | p # ps \<Rightarrow> (c # p) # ps))"

subsection \<open>\<open>net.ParseMAC\<close>\<close>

definition hexval :: "char \<Rightarrow> int option" where
  "hexval c =
     (let k = (of_char c :: int) in
      if 48 \<le> k \<and> k \<le> 57 then Some (k - 48)
      else if 97 \<le> k \<and> k \<le> 102 then Some (k - 97 + 10)
      else if 65 \<le> k \<and> k \<le> 70 then Some (k - 65 + 10)
      else None)"

text \<open>
  \<open>xtoi\<close> returns the number (a Go \<open>int\<close>, below \<open>big = 0xFFFFFF\<close>), the characters
  consumed and success.
\<close>

fun xtoi_loop :: "string \<Rightarrow> int \<Rightarrow> nat \<Rightarrow> int \<times> nat \<times> bool" where
  "xtoi_loop [] n i = (if i = 0 then (0, i, False) else (n, i, True))"
| "xtoi_loop (c # cs) n i =
     (case hexval c of
        None \<Rightarrow> (if i = 0 then (0, i, False) else (n, i, True))
      | Some d \<Rightarrow>
          (let n' = n * 16 + d in
           if n' \<ge> 0xFFFFFF then (0, i, False) else xtoi_loop cs n' (Suc i)))"

definition xtoi :: "string \<Rightarrow> int \<times> nat \<times> bool" where
  "xtoi s = xtoi_loop s 0 0"

definition xtoi2 :: "string \<Rightarrow> char \<Rightarrow> byte \<times> bool" where
  "xtoi2 s e =
     (if 2 < length s \<and> s ! 2 \<noteq> e then (0, False)
      else (case xtoi (take 2 s) of (n, ei, ok) \<Rightarrow> (word_of_int n, ok \<and> ei = 2)))"

text \<open>The loop of the \<open>aa:bb:...\<close> and \<open>aa-bb-...\<close> forms: \<open>k\<close> bytes remain, \<open>x\<close> is the offset.\<close>

fun ParseMAC_loop3 :: "string \<Rightarrow> char \<Rightarrow> nat \<Rightarrow> nat \<Rightarrow> byte list option" where
  "ParseMAC_loop3 s e 0 x = Some []"
| "ParseMAC_loop3 s e (Suc k) x =
     (case xtoi2 (drop x s) e of
        (b, ok) \<Rightarrow>
          if \<not> ok then None
          else (case ParseMAC_loop3 s e k (x + 3) of
                  None \<Rightarrow> None
                | Some hw \<Rightarrow> Some (b # hw)))"

text \<open>The loop of the \<open>aabb.ccdd...\<close> form: \<open>k\<close> pairs of bytes remain.\<close>

fun ParseMAC_loop5 :: "string \<Rightarrow> char \<Rightarrow> nat \<Rightarrow> nat \<Rightarrow> byte list option" where
  "ParseMAC_loop5 s e 0 x = Some []"
| "ParseMAC_loop5 s e (Suc k) x =
     (case xtoi2 (take 2 (drop x s)) (CHR 0x00) of
        (b1, ok1) \<Rightarrow>
          if \<not> ok1 then None
          else (case xtoi2 (drop (x + 2) s) e of
                  (b2, ok2) \<Rightarrow>
                    if \<not> ok2 then None
                    else (case ParseMAC_loop5 s e k (x + 5) of
                            None \<Rightarrow> None
                          | Some hw \<Rightarrow> Some (b1 # b2 # hw))))"

definition ParseMAC :: "string \<Rightarrow> error + byte list" where
  "ParseMAC s =
     (if length s < 14 then Inl (InvalidAddress s)
      else if s ! 2 = CHR '':'' \<or> s ! 2 = CHR ''-'' then
        (if (length s + 1) mod 3 \<noteq> 0 then Inl (InvalidAddress s)
         else
           (let n = (length s + 1) div 3 in
            if n \<noteq> 6 \<and> n \<noteq> 8 \<and> n \<noteq> 20 then Inl (InvalidAddress s)
            else (case ParseMAC_loop3 s (s ! 2) n 0 of
                    None \<Rightarrow> Inl (InvalidAddress s)
                  | Some hw \<Rightarrow> Inr hw)))
      else if s ! 4 = CHR ''.'' then
        (if (length s + 1) mod 5 \<noteq> 0 then Inl (InvalidAddress s)
         else
           (let n = 2 * (length s + 1) div 5 in
            if n \<noteq> 6 \<and> n \<noteq> 8 \<and> n \<noteq> 20 then Inl (InvalidAddress s)
            else (case ParseMAC_loop5 s (s ! 4) (n div 2) 0 of
                    None \<Rightarrow> Inl (InvalidAddress s)
                  | Some hw \<Rightarrow> Inr hw)))
      else Inl (InvalidAddress s))"

subsection \<open>\<open>strconv.Atoi\<close> (64-bit \<open>int\<close>)\<close>

definition isDigit :: "char \<Rightarrow> bool" where
  "isDigit c = (48 \<le> (of_char c :: nat) \<and> (of_char c :: nat) \<le> 57)"

text \<open>
  The digit loop of \<open>ParseUint(s, 10, 64)\<close>, the \<open>uint64\<close> accumulator as an integer
  with the overflow tests written out: a byte that is no digit is a syntax error,
  a value beyond \<open>2^64 - 1\<close> a range error, whichever the scan meets first.
\<close>

fun ParseUint_loop :: "string \<Rightarrow> int \<Rightarrow> NumErr + int" where
  "ParseUint_loop [] n = Inr n"
| "ParseUint_loop (c # cs) n =
     (if \<not> isDigit c then Inl ErrSyntax
      else if n \<ge> (2 ^ 64 - 1) div 10 + 1 then Inl ErrRange
      else (let n1 = n * 10 + (of_char c - 48) in
            if n1 > 2 ^ 64 - 1 then Inl ErrRange else ParseUint_loop cs n1))"

definition ParseUint :: "string \<Rightarrow> NumErr + int" where
  "ParseUint s = (if s = [] then Inl ErrSyntax else ParseUint_loop s 0)"

text \<open>
  \<open>Atoi\<close> returns a pair as in Go: the value and the error (\<open>None\<close> is \<open>nil\<close>). The value
  beside a syntax error is 0; beside a range error it is the nearest bound.
\<close>

definition Atoi :: "string \<Rightarrow> int \<times> error option" where
  "Atoi s =
     (if s = [] then (0, Some (InvalidNumber s ErrSyntax))
      else
        (let neg = (hd s = CHR ''-'');
             s1 = (if hd s = CHR ''+'' \<or> hd s = CHR ''-'' then tl s else s)
         in case ParseUint s1 of
              Inl ErrSyntax \<Rightarrow> (0, Some (InvalidNumber s ErrSyntax))
            | Inl ErrRange \<Rightarrow>
                (if neg then (- (2 ^ 63), Some (InvalidNumber s ErrRange))
                 else (2 ^ 63 - 1, Some (InvalidNumber s ErrRange)))
            | Inr un \<Rightarrow>
                (if \<not> neg \<and> un \<ge> 2 ^ 63 then (2 ^ 63 - 1, Some (InvalidNumber s ErrRange))
                 else if neg \<and> un > 2 ^ 63 then (- (2 ^ 63), Some (InvalidNumber s ErrRange))
                 else (if neg then - un else un, None))))"

section \<open>The record decoder (client.go, \<open>parseDevicesString\<close>)\<close>

text \<open>
  \<open>net.ParseIP\<close> is a parameter of the decoder: it returns nil (\<open>None\<close>) for text that is
  no IP address, and its result is only stored.

  The body of the loop over the device strings: one device or the error that the
  function returns with.
\<close>

definition parseDevice :: "(string \<Rightarrow> byte list option) \<Rightarrow> string \<Rightarrow> error + AttachedDevice" where
  "parseDevice ParseIP devStr =
     (let parts = Split devStr (CHR '';'') in
      if length parts \<noteq> 8 then Inl (MalformedRecord devStr)
      else
        (case ParseMAC (parts ! 3) of
           Inl err \<Rightarrow> Inl err
         | Inr mac \<Rightarrow>
             (case Atoi (parts ! 5) of
                (signal, err) \<Rightarrow>
                  if err \<noteq> None \<and> parts ! 5 \<noteq> [] then Inl (the err)
                  else
                    (case Atoi (parts ! 6) of
                       (linkRate, err) \<Rightarrow>
                         if err \<noteq> None \<and> parts ! 6 \<noteq> [] then Inl (the err)
                         else
                           Inr \<lparr>IP = ParseIP (parts ! 1), Name = parts ! 2, MAC = mac,
                                Type = parts ! 4, LinkRate = linkRate, Signal = signal\<rparr>))))"

text \<open>The loop: the first error ends the function, otherwise the devices in input order.\<close>

fun parseDevices_loop ::
  "(string \<Rightarrow> byte list option) \<Rightarrow> string list \<Rightarrow> error + AttachedDevice list" where
  "parseDevices_loop ParseIP [] = Inr []"
| "parseDevices_loop ParseIP (devStr # devStrs) =
     (case parseDevice ParseIP devStr of
        Inl err \<Rightarrow> Inl err
      | Inr dev \<Rightarrow>
          (case parseDevices_loop ParseIP devStrs of
             Inl err \<Rightarrow> Inl err
           | Inr devList \<Rightarrow> Inr (dev # devList)))"

text \<open>
  A call either panics (the slice expression \<open>devices[2:]\<close> on fewer than two bytes) or
  returns: \<open>Return (Inl err)\<close> is \<open>(nil, err)\<close>, \<open>Return (Inr devList)\<close> is \<open>(devList, nil)\<close>.
\<close>

datatype outcome = Panic | Return "error + AttachedDevice list"

definition parseDevicesString :: "(string \<Rightarrow> byte list option) \<Rightarrow> string \<Rightarrow> outcome" where
  "parseDevicesString ParseIP devices =
     (if length devices < 2 then Panic
      else Return (parseDevices_loop ParseIP (Split (drop 2 devices) (CHR ''@''))))"

text \<open>
  Names for the two splits of the function, for use in statements: the device strings
  of an input (the local \<open>devStrs\<close>) and the fields of a device string (the local
  \<open>parts\<close>).
\<close>

definition devStrsOf :: "string \<Rightarrow> string list" where
  "devStrsOf devices = Split (drop 2 devices) (CHR ''@'')"

definition partsOf :: "string \<Rightarrow> string list" where
  "partsOf devStr = Split devStr (CHR '';'')"

text \<open>
  Numeric content, as the specification uses the word: an optional sign followed by one or more
  decimal digits.
\<close>

definition isNumeric :: "string \<Rightarrow> bool" where
  "isNumeric s =
     (s \<noteq> [] \<and>
      (let t = (if hd s = CHR ''+'' \<or> hd s = CHR ''-'' then tl s else s)
       in t \<noteq> [] \<and> list_all isDigit t))"

subsection \<open>The decoder with checked index expressions\<close>

text \<open>
  Go's index expression \<open>xs[i]\<close>, slice expression \<open>s[i:]\<close> and indexed assignment
  \<open>xs[i] = v\<close> panic when the index is out of range: \<open>None\<close> is the panic.
\<close>

definition indexExpr :: "'a list \<Rightarrow> nat \<Rightarrow> 'a option" where
  "indexExpr xs i = (if i < length xs then Some (xs ! i) else None)"

definition sliceExpr :: "'a list \<Rightarrow> nat \<Rightarrow> 'a list option" where
  "sliceExpr s i = (if i \<le> length s then Some (drop i s) else None)"

definition assignExpr :: "'a list \<Rightarrow> nat \<Rightarrow> 'a \<Rightarrow> 'a list option" where
  "assignExpr xs i v = (if i < length xs then Some (xs[i := v]) else None)"

text \<open>The zero value of the struct, with which \<open>make\<close> fills \<open>devList\<close>.\<close>

definition zeroDevice :: AttachedDevice where
  "zeroDevice = \<lparr>IP = None, Name = [], MAC = [], Type = [], LinkRate = 0, Signal = 0\<rparr>"

text \<open>
  The body of the loop with every index expression checked, in the order in which the
  function evaluates them; \<open>None\<close> is a panic.
\<close>

definition parseDevice_checked ::
  "(string \<Rightarrow> byte list option) \<Rightarrow> string \<Rightarrow> (error + AttachedDevice) option" where
  "parseDevice_checked ParseIP devStr =
     (let parts = Split devStr (CHR '';'') in
      if length parts \<noteq> 8 then Some (Inl (MalformedRecord devStr))
      else
        (case indexExpr parts 3 of
           None \<Rightarrow> None
         | Some parts3 \<Rightarrow>
             (case ParseMAC parts3 of
                Inl err \<Rightarrow> Some (Inl err)
              | Inr mac \<Rightarrow>
                  (case indexExpr parts 5 of
                     None \<Rightarrow> None
                   | Some parts5 \<Rightarrow>
                       (case Atoi parts5 of
                          (signal, err) \<Rightarrow>
                            if err \<noteq> None \<and> parts5 \<noteq> [] then Some (Inl (the err))
                            else
                              (case indexExpr parts 6 of
                                 None \<Rightarrow> None
                               | Some parts6 \<Rightarrow>
                                   (case Atoi parts6 of
                                      (linkRate, err) \<Rightarrow>
                                        if err \<noteq> None \<and> parts6 \<noteq> [] then Some (Inl (the err))
                                        else
                                          (case indexExpr parts 1 of
                                             None \<Rightarrow> None
                                           | Some parts1 \<Rightarrow>
                                               (case indexExpr parts 2 of
                                                  None \<Rightarrow> None
                                                | Some parts2 \<Rightarrow>
                                                    (case indexExpr parts 4 of
                                                       None \<Rightarrow> None
                                                     | Some parts4 \<Rightarrow>
                                                         Some (Inr \<lparr>IP = ParseIP parts1,
                                                                    Name = parts2, MAC = mac,
                                                                    Type = parts4,
                                                                    LinkRate = linkRate,
                                                                    Signal = signal\<rparr>)))))))))))"

text \<open>
  The loop with its index \<open>i\<close> and the slice \<open>devList\<close> that \<open>make\<close> allocated: each
  device is stored by the indexed assignment \<open>devList[i] = ...\<close>.
\<close>

fun parseDevices_loop_checked ::
  "(string \<Rightarrow> byte list option) \<Rightarrow> string list \<Rightarrow> nat \<Rightarrow> AttachedDevice list
     \<Rightarrow> (error + AttachedDevice list) option" where
  "parseDevices_loop_checked ParseIP [] i devList = Some (Inr devList)"
| "parseDevices_loop_checked ParseIP (devStr # devStrs) i devList =
     (case parseDevice_checked ParseIP devStr of
        None \<Rightarrow> None
      | Some (Inl err) \<Rightarrow> Some (Inl err)
      | Some (Inr dev) \<Rightarrow>
          (case assignExpr devList i dev of
             None \<Rightarrow> None
           | Some devList' \<Rightarrow> parseDevices_loop_checked ParseIP devStrs (Suc i) devList'))"

definition parseDevicesString_checked :: "(string \<Rightarrow> byte list option) \<Rightarrow> string \<Rightarrow> outcome" where
  "parseDevicesString_checked ParseIP devices =
     (case sliceExpr devices 2 of
        None \<Rightarrow> Panic
      | Some rest \<Rightarrow>
          (let devStrs = Split rest (CHR ''@'');
               devList = replicate (length devStrs) zeroDevice
           in case parseDevices_loop_checked ParseIP devStrs 0 devList of
                None \<Rightarrow> Panic
              | Some r \<Rightarrow> Return r))"

text \<open>
  A device string that passes the three checks of the loop body: 8 fields, a MAC that
  parses, and in each of fields 5 and 6 nothing or a number that \<open>Atoi\<close> accepts. Field 1
  is no part of it.
\<close>

definition decodable :: "string \<Rightarrow> bool" where
  "decodable devStr =
     (let parts = partsOf devStr in
      length parts = 8 \<and> \<not> isl (ParseMAC (parts ! 3))
      \<and> (parts ! 5 = [] \<or> snd (Atoi (parts ! 5)) = None)
      \<and> (parts ! 6 = [] \<or> snd (Atoi (parts ! 6)) = None))"

text \<open>
  The scan with which \<open>net.ParseIP\<close> starts (in \<open>net/netip.ParseAddr\<close>, which it calls):
  the first \<open>.\<close> sends the whole text to the IPv4 parser, the first \<open>:\<close> to the IPv6
  parser, a \<open>%\<close> before either is rejected, and text with none of them is no address.
  Earlier versions of the library have no case for \<open>%\<close>; their two parsers reject it. The
  two parsers are parameters.
\<close>

fun net_ParseIP_loop ::
  "(string \<Rightarrow> byte list option) \<Rightarrow> (string \<Rightarrow> byte list option) \<Rightarrow> string \<Rightarrow> string
     \<Rightarrow> byte list option" where
  "net_ParseIP_loop parseIPv4 parseIPv6 s [] = None"
| "net_ParseIP_loop parseIPv4 parseIPv6 s (c # cs) =
     (if c = CHR ''.'' then parseIPv4 s
      else if c = CHR '':'' then parseIPv6 s
      else if c = CHR ''%'' then None
      else net_ParseIP_loop parseIPv4 parseIPv6 s cs)"

definition net_ParseIP ::
  "(string \<Rightarrow> byte list option) \<Rightarrow> (string \<Rightarrow> byte list option) \<Rightarrow> string \<Rightarrow> byte list option" where
  "net_ParseIP parseIPv4 parseIPv6 s = net_ParseIP_loop parseIPv4 parseIPv6 s s"

section \<open>The differ (listener.go, \<open>getChangedDevices\<close>)\<close>

text \<open>The key of a device in the map \<open>diff\<close>.\<close>

definition key :: "AttachedDevice \<Rightarrow> string" where
  "key dev = HardwareAddr_String (MAC dev)"

text \<open>First loop: every old device's key is stored.\<close>

fun markOld :: "AttachedDevice list \<Rightarrow> (string \<rightharpoonup> bool) \<Rightarrow> (string \<rightharpoonup> bool)" where
  "markOld [] diff = diff"
| "markOld (dev # devs) diff = markOld devs (diff(key dev \<mapsto> True))"

text \<open>Second loop: a new device whose key is absent is added, otherwise its key is deleted.\<close>

fun findAdded ::
  "AttachedDevice list \<Rightarrow> ChangedDevice list \<Rightarrow> (string \<rightharpoonup> bool)
     \<Rightarrow> ChangedDevice list \<times> (string \<rightharpoonup> bool)" where
  "findAdded [] change diff = (change, diff)"
| "findAdded (dev # devs) change diff =
     (if diff (key dev) = None
      then findAdded devs (change @ [\<lparr>Device = dev, Change = DeviceAdded\<rparr>]) diff
      else findAdded devs change (diff(key dev := None)))"

text \<open>Third loop: an old device whose key is still stored is removed.\<close>

fun findRemoved ::
  "AttachedDevice list \<Rightarrow> ChangedDevice list \<Rightarrow> (string \<rightharpoonup> bool) \<Rightarrow> ChangedDevice list" where
  "findRemoved [] change diff = change"
| "findRemoved (dev # devs) change diff =
     (if diff (key dev) \<noteq> None
      then findRemoved devs (change @ [\<lparr>Device = dev, Change = DeviceRemoved\<rparr>]) diff
      else findRemoved devs change diff)"

definition getChangedDevices :: "AttachedDevice list \<Rightarrow> AttachedDevice list \<Rightarrow> ChangedDevice list" where
  "getChangedDevices oldDevices newDevices =
     (case findAdded newDevices [] (markOld oldDevices Map.empty) of
        (change, diff) \<Rightarrow> findRemoved oldDevices change diff)"

section \<open>The polling engine (listener.go, \<open>OnDeviceChanged\<close>)\<close>

text \<open>
  The state of the watcher goroutine is the baseline \<open>devices\<close>; \<open>calls\<close> records the
  invocations of the listener \<open>fn\<close> in order, each with its two arguments.
\<close>

record watcher_state =
  devices :: "AttachedDevice list"
  calls :: "(ChangedDevice option \<times> error option) list"

text \<open>
  One tick receives what \<open>c.Login()\<close> returns and what \<open>c.Devices()\<close> returns when it is
  called.
\<close>

definition getDevices :: "error option \<Rightarrow> error + AttachedDevice list \<Rightarrow> error + AttachedDevice list" where
  "getDevices login fetched = (case login of Some err \<Rightarrow> Inl err | None \<Rightarrow> fetched)"

fun notify ::
  "ChangedDevice list \<Rightarrow> (ChangedDevice option \<times> error option) list
     \<Rightarrow> (ChangedDevice option \<times> error option) list" where
  "notify [] cs = cs"
| "notify (changedDevice # rest) cs = notify rest (cs @ [(Some changedDevice, None)])"

definition tick :: "error option \<times> (error + AttachedDevice list) \<Rightarrow> watcher_state \<Rightarrow> watcher_state" where
  "tick t s =
     (case getDevices (fst t) (snd t) of
        Inl err \<Rightarrow> s\<lparr>calls := calls s @ [(None, Some err)]\<rparr>
      | Inr updatedDevices \<Rightarrow>
          \<lparr>devices = updatedDevices,
           calls = notify (getChangedDevices (devices s) updatedDevices) (calls s)\<rparr>)"

text \<open>The loop over the ticker's channel, on a finite run of ticks.\<close>

fun watcher :: "(error option \<times> (error + AttachedDevice list)) list \<Rightarrow> watcher_state \<Rightarrow> watcher_state" where
  "watcher [] s = s"
| "watcher (t # ts) s = watcher ts (tick t s)"

definition OnDeviceChanged :: "(error option \<times> (error + AttachedDevice list)) list \<Rightarrow> watcher_state" where
  "OnDeviceChanged ticks = watcher ticks \<lparr>devices = [], calls = []\<rparr>"

section \<open>Example devices\<close>

definition devA :: AttachedDevice where
  "devA = \<lparr>IP = None, Name = ''phone'', MAC = [0xaa, 0xaa, 0xaa, 0xaa, 0xaa, 0xaa],
           Type = ''wireless'', LinkRate = 100, Signal = 50\<rparr>"

definition devA' :: AttachedDevice where
  "devA' = \<lparr>IP = None, Name = ''renamed'', MAC = [0xaa, 0xaa, 0xaa, 0xaa, 0xaa, 0xaa],
            Type = ''wireless'', LinkRate = 54, Signal = 12\<rparr>"

definition devB :: AttachedDevice where
  "devB = \<lparr>IP = None, Name = ''tv'', MAC = [0xbb, 0xbb, 0xbb, 0xbb, 0xbb, 0xbb],
           Type = ''wired'', LinkRate = 0, Signal = 0\<rparr>"

definition devC :: AttachedDevice where
  "devC = \<lparr>IP = None, Name = ''laptop'', MAC = [0xcc, 0xcc, 0xcc, 0xcc, 0xcc, 0xcc],
           Type = ''wireless'', LinkRate = 300, Signal = 80\<rparr>"

section \<open>Properties of the differ\<close>

text \<open>What each of the three loops computes, for any accumulator and any map.\<close>

lemma dom_markOld: "dom (markOld devs diff) = dom diff \<union> key ` set devs"
  by (induction devs arbitrary: diff) auto

lemma findRemoved_eq:
  "findRemoved devs change diff =
     change @ map (\<lambda>d. \<lparr>Device = d, Change = DeviceRemoved\<rparr>) (filter (\<lambda>d. key d \<in> dom diff) devs)"
  by (induction devs arbitrary: change) (auto simp: domIff)

lemma dom_findAdded:
  "dom (snd (findAdded devs change diff)) = dom diff - key ` set devs"
  by (induction devs arbitrary: change diff) (auto simp: domIff)

lemma findAdded_subseq:
  "\<exists>added. fst (findAdded devs change diff) =
       change @ map (\<lambda>d. \<lparr>Device = d, Change = DeviceAdded\<rparr>) added \<and> subseq added devs"
proof (induction devs arbitrary: change diff)
  case Nil
  show ?case by simp
next
  case (Cons dev devs)
  show ?case
  proof (cases "diff (key dev) = None")
    case True
    from Cons.IH [of "change @ [\<lparr>Device = dev, Change = DeviceAdded\<rparr>]" diff]
    obtain added where a: "fst (findAdded devs (change @ [\<lparr>Device = dev, Change = DeviceAdded\<rparr>]) diff) =
        (change @ [\<lparr>Device = dev, Change = DeviceAdded\<rparr>]) @ map (\<lambda>d. \<lparr>Device = d, Change = DeviceAdded\<rparr>) added"
      and s: "subseq added devs" by blast
    show ?thesis
      using True a s by (intro exI [of _ "dev # added"]) simp
  next
    case False
    from Cons.IH [of change "diff(key dev := None)"]
    obtain added where a: "fst (findAdded devs change (diff(key dev := None))) =
        change @ map (\<lambda>d. \<lparr>Device = d, Change = DeviceAdded\<rparr>) added"
      and s: "subseq added devs" by blast
    show ?thesis
      using False a s by (intro exI [of _ added]) auto
  qed
qed

lemma findAdded_distinct:
  "distinct (map key devs) \<Longrightarrow>
   fst (findAdded devs change diff) =
     change @ map (\<lambda>d. \<lparr>Device = d, Change = DeviceAdded\<rparr>) (filter (\<lambda>d. key d \<notin> dom diff) devs)"
proof (induction devs arbitrary: change diff)
  case Nil
  show ?case by simp
next
  case (Cons dev devs)
  have d: "distinct (map key devs)" and n: "\<forall>x\<in>set devs. key x \<noteq> key dev"
    using Cons.prems by (auto simp: image_iff)
  show ?case
  proof (cases "diff (key dev) = None")
    case True
    then show ?thesis using Cons.IH [OF d] by (simp add: domIff)
  next
    case False
    then have in_dom: "key dev \<in> dom diff"
      by (simp add: domIff)
    have f: "filter (\<lambda>d. key d \<notin> dom (diff(key dev := None))) devs = filter (\<lambda>d. key d \<notin> dom diff) devs"
      using n by (intro filter_cong) auto
    have "fst (findAdded (dev # devs) change diff) = fst (findAdded devs change (diff(key dev := None)))"
      using False by auto
    also have "\<dots> = change @ map (\<lambda>d. \<lparr>Device = d, Change = DeviceAdded\<rparr>)
                 (filter (\<lambda>d. key d \<notin> dom (diff(key dev := None))) devs)"
      by (rule Cons.IH [OF d])
    also have "\<dots> = change @ map (\<lambda>d. \<lparr>Device = d, Change = DeviceAdded\<rparr>)
                 (filter (\<lambda>d. key d \<notin> dom diff) (dev # devs))"
      unfolding f using in_dom by simp
    finally show ?thesis .
  qed
qed

lemma findAdded_empty:
  "fst (findAdded devs change Map.empty) = change @ map (\<lambda>d. \<lparr>Device = d, Change = DeviceAdded\<rparr>) devs"
  by (induction devs arbitrary: change) auto

lemma getChangedDevices_split:
  "getChangedDevices old new =
     fst (findAdded new [] (markOld old Map.empty))
       @ map (\<lambda>d. \<lparr>Device = d, Change = DeviceRemoved\<rparr>) (filter (\<lambda>d. key d \<notin> key ` set new) old)"
proof -
  have "filter (\<lambda>d. key d \<in> dom (snd (findAdded new [] (markOld old Map.empty)))) old
      = filter (\<lambda>d. key d \<notin> key ` set new) old"
    by (intro filter_cong) (auto simp: dom_findAdded dom_markOld)
  then show ?thesis
    by (simp add: getChangedDevices_def case_prod_beta findRemoved_eq)
qed

lemma getChangedDevices_distinct:
  assumes "distinct (map key new)"
  shows "getChangedDevices old new =
     map (\<lambda>d. \<lparr>Device = d, Change = DeviceAdded\<rparr>) (filter (\<lambda>d. key d \<notin> key ` set old) new)
       @ map (\<lambda>d. \<lparr>Device = d, Change = DeviceRemoved\<rparr>) (filter (\<lambda>d. key d \<notin> key ` set new) old)"
  by (simp add: getChangedDevices_split findAdded_distinct [OF assms] dom_markOld)

lemma filter_key_distinct:
  "distinct (map key devs) \<Longrightarrow> d \<in> set devs \<Longrightarrow> filter (\<lambda>x. key x = key d) devs = [d]"
proof (induction devs)
  case Nil
  then show ?case by simp
next
  case (Cons a devs)
  show ?case
  proof (cases "a = d")
    case True
    have "\<forall>x\<in>set devs. key x \<noteq> key d"
      using Cons.prems True by (auto simp: image_iff)
    then have "filter (\<lambda>x. key x = key d) devs = []"
      by (simp add: filter_empty_conv)
    then show ?thesis using True by simp
  next
    case False
    then have "d \<in> set devs" using Cons.prems by simp
    moreover have "key a \<noteq> key d" using Cons.prems \<open>d \<in> set devs\<close> by auto
    ultimately show ?thesis using Cons by simp
  qed
qed

lemma notify_eq: "notify changes cs = cs @ map (\<lambda>c. (Some c, None)) changes"
  by (induction changes arbitrary: cs) auto

lemma key_devA: "key devA = ''aa:aa:aa:aa:aa:aa''"
  by (simp add: key_def devA_def HardwareAddr_String_def hexDigit_def)
lemma key_devA': "key devA' = ''aa:aa:aa:aa:aa:aa''"
  by (simp add: key_def devA'_def HardwareAddr_String_def hexDigit_def)
lemma key_devB: "key devB = ''bb:bb:bb:bb:bb:bb''"
  by (simp add: key_def devB_def HardwareAddr_String_def hexDigit_def)
lemma key_devC: "key devC = ''cc:cc:cc:cc:cc:cc''"
  by (simp add: key_def devC_def HardwareAddr_String_def hexDigit_def)

section \<open>Claims about the differ\<close>

text \<open>
  C1 (as amended). For two snapshots in each of which no MAC key occurs twice, the change
  list is the new devices whose key is not in the old snapshot, as \<open>DeviceAdded\<close>,
  followed by the old devices whose key is not in the new snapshot, as \<open>DeviceRemoved\<close>.
  So a key present only in the old snapshot has exactly one change, a \<open>DeviceRemoved\<close>;
  a key present only in the new snapshot has exactly one change, a \<open>DeviceAdded\<close>; a key
  present in both has none, whatever the other fields of the two devices are.
\<close>

theorem getChangedDevices_symmetric_difference:
  assumes "distinct (map key oldDevices)" and "distinct (map key newDevices)"
  shows "getChangedDevices oldDevices newDevices =
           map (\<lambda>d. \<lparr>Device = d, Change = DeviceAdded\<rparr>)
               (filter (\<lambda>d. key d \<notin> key ` set oldDevices) newDevices)
           @ map (\<lambda>d. \<lparr>Device = d, Change = DeviceRemoved\<rparr>)
               (filter (\<lambda>d. key d \<notin> key ` set newDevices) oldDevices)
         \<and> (k \<in> key ` set oldDevices \<and> k \<notin> key ` set newDevices \<longrightarrow>
              (\<exists>d \<in> set oldDevices. key d = k \<and>
                 filter (\<lambda>c. key (Device c) = k) (getChangedDevices oldDevices newDevices)
                   = [\<lparr>Device = d, Change = DeviceRemoved\<rparr>]))
         \<and> (k \<in> key ` set newDevices \<and> k \<notin> key ` set oldDevices \<longrightarrow>
              (\<exists>d \<in> set newDevices. key d = k \<and>
                 filter (\<lambda>c. key (Device c) = k) (getChangedDevices oldDevices newDevices)
                   = [\<lparr>Device = d, Change = DeviceAdded\<rparr>]))
         \<and> (k \<in> key ` set oldDevices \<and> k \<in> key ` set newDevices \<longrightarrow>
              filter (\<lambda>c. key (Device c) = k) (getChangedDevices oldDevices newDevices) = [])"
proof -
  let ?A = "\<lambda>d. \<lparr>Device = d, Change = DeviceAdded\<rparr>"
  let ?R = "\<lambda>d. \<lparr>Device = d, Change = DeviceRemoved\<rparr>"
  let ?Ko = "key ` set oldDevices" and ?Kn = "key ` set newDevices"
  have closed: "getChangedDevices oldDevices newDevices =
      map ?A (filter (\<lambda>d. key d \<notin> ?Ko) newDevices) @ map ?R (filter (\<lambda>d. key d \<notin> ?Kn) oldDevices)"
    by (rule getChangedDevices_distinct [OF assms(2)])
  have fo: "filter (\<lambda>x. key x \<notin> ?Kn \<and> key x = k) xs =
      (if k \<in> ?Kn then [] else filter (\<lambda>x. key x = k) xs)" for xs
    by (induction xs) auto
  have fn: "filter (\<lambda>x. key x \<notin> ?Ko \<and> key x = k) xs =
      (if k \<in> ?Ko then [] else filter (\<lambda>x. key x = k) xs)" for xs
    by (induction xs) auto
  have events: "filter (\<lambda>c. key (Device c) = k) (getChangedDevices oldDevices newDevices) =
      map ?A (if k \<in> ?Ko then [] else filter (\<lambda>x. key x = k) newDevices)
        @ map ?R (if k \<in> ?Kn then [] else filter (\<lambda>x. key x = k) oldDevices)"
    unfolding closed by (simp add: filter_map o_def fo fn)
  have only_old: "\<exists>d \<in> set oldDevices. key d = k \<and>
        filter (\<lambda>c. key (Device c) = k) (getChangedDevices oldDevices newDevices) = [?R d]"
    if "k \<in> ?Ko" "k \<notin> ?Kn"
  proof -
    from that(1) obtain d where d: "d \<in> set oldDevices" "key d = k" by auto
    have "filter (\<lambda>x. key x = k) newDevices = []"
      using that(2) by (auto simp: filter_empty_conv)
    moreover have "filter (\<lambda>x. key x = k) oldDevices = [d]"
      using filter_key_distinct [OF assms(1) d(1)] d(2) by simp
    ultimately show ?thesis using d that by (auto simp: events)
  qed
  have only_new: "\<exists>d \<in> set newDevices. key d = k \<and>
        filter (\<lambda>c. key (Device c) = k) (getChangedDevices oldDevices newDevices) = [?A d]"
    if "k \<in> ?Kn" "k \<notin> ?Ko"
  proof -
    from that(1) obtain d where d: "d \<in> set newDevices" "key d = k" by auto
    have "filter (\<lambda>x. key x = k) oldDevices = []"
      using that(2) by (auto simp: filter_empty_conv)
    moreover have "filter (\<lambda>x. key x = k) newDevices = [d]"
      using filter_key_distinct [OF assms(2) d(1)] d(2) by simp
    ultimately show ?thesis using d that by (auto simp: events)
  qed
  have both: "filter (\<lambda>c. key (Device c) = k) (getChangedDevices oldDevices newDevices) = []"
    if "k \<in> ?Ko" "k \<in> ?Kn"
    using that by (simp add: events)
  show ?thesis using closed only_old only_new both by blast
qed

text \<open>
  The theorem at the snapshots \<open>[devA, devB]\<close> and \<open>[devA', devC]\<close>: \<open>devA\<close> and
  \<open>devA'\<close> share a MAC and differ in name, link rate and signal.
\<close>

theorem getChangedDevices_symmetric_difference_witness:
  "distinct (map key [devA, devB]) \<and> distinct (map key [devA', devC])
   \<and> getChangedDevices [devA, devB] [devA', devC] =
       [\<lparr>Device = devC, Change = DeviceAdded\<rparr>, \<lparr>Device = devB, Change = DeviceRemoved\<rparr>]
   \<and> Name devA \<noteq> Name devA'"
proof -
  have h1: "distinct (map key [devA, devB])" by (simp add: key_devA key_devB)
  have h2: "distinct (map key [devA', devC])" by (simp add: key_devA' key_devC)
  have "getChangedDevices [devA, devB] [devA', devC] =
       [\<lparr>Device = devC, Change = DeviceAdded\<rparr>, \<lparr>Device = devB, Change = DeviceRemoved\<rparr>]"
    using getChangedDevices_symmetric_difference [OF h1 h2, THEN conjunct1]
    by (simp add: key_devA key_devA' key_devB key_devC)
  then show ?thesis using h1 h2 by (simp add: devA_def devA'_def)
qed

text \<open>
  C1, the case left out. Without the restriction the statement fails: when the new
  snapshot lists a MAC twice that
  the old snapshot has, the second entry is reported as added (its key was deleted from
  the map at the first entry); when the old snapshot lists a MAC twice that the new one
  lacks, it is reported as removed twice.
\<close>

theorem getChangedDevices_duplicate_counterexample:
  "key devA \<in> key ` set [devA] \<and> key devA \<in> key ` set [devA, devA']
   \<and> getChangedDevices [devA] [devA, devA'] = [\<lparr>Device = devA', Change = DeviceAdded\<rparr>]
   \<and> key devA \<notin> key ` set ([] :: AttachedDevice list)
   \<and> getChangedDevices [devA, devA'] [] =
        [\<lparr>Device = devA, Change = DeviceRemoved\<rparr>, \<lparr>Device = devA', Change = DeviceRemoved\<rparr>]"
  by (simp add: getChangedDevices_def key_devA key_devA' ex_bool_eq)

text \<open>
  C7 (as amended). Diffing a snapshot in which no MAC key occurs twice against itself
  yields the empty change list.
\<close>

theorem getChangedDevices_self:
  assumes "distinct (map key s)"
  shows "getChangedDevices s s = []"
proof -
  have "filter (\<lambda>d. key d \<notin> key ` set s) s = []"
    by (auto simp: filter_empty_conv)
  then show ?thesis
    by (simp add: getChangedDevices_distinct [OF assms])
qed

theorem getChangedDevices_self_witness:
  "distinct (map key [devA, devB]) \<and> getChangedDevices [devA, devB] [devA, devB] = []"
proof -
  have h: "distinct (map key [devA, devB])" by (simp add: key_devA key_devB)
  show ?thesis using h getChangedDevices_self [OF h] by simp
qed

text \<open>
  C7, the case left out. A snapshot that lists one MAC twice, diffed against itself,
  reports the second entry as added.
\<close>

theorem getChangedDevices_self_counterexample:
  "getChangedDevices [devA, devA] [devA, devA] = [\<lparr>Device = devA, Change = DeviceAdded\<rparr>]
   \<and> getChangedDevices [devA, devA] [devA, devA] \<noteq> []"
  by (simp add: getChangedDevices_def key_devA ex_bool_eq)

text \<open>
  C2. For any two snapshots the change list is a run of \<open>DeviceAdded\<close> changes, whose
  devices appear in the order of the new snapshot, followed by a run of \<open>DeviceRemoved\<close>
  changes, whose devices appear in the order of the old snapshot; a successful tick calls
  the listener once per change, in this order, and then holds the new snapshot. For the
  baseline \<open>[devA, devB]\<close> and the new snapshot \<open>[devB, devC]\<close> the calls are exactly
  added \<open>devC\<close>, then removed \<open>devA\<close>.
\<close>

theorem getChangedDevices_order:
  "(\<exists>added removed.
      getChangedDevices oldDevices newDevices =
        map (\<lambda>d. \<lparr>Device = d, Change = DeviceAdded\<rparr>) added
          @ map (\<lambda>d. \<lparr>Device = d, Change = DeviceRemoved\<rparr>) removed
      \<and> subseq added newDevices \<and> subseq removed oldDevices)
   \<and> tick (None, Inr newDevices) s =
        \<lparr>devices = newDevices,
         calls = calls s @ map (\<lambda>c. (Some c, None)) (getChangedDevices (devices s) newDevices)\<rparr>
   \<and> getChangedDevices [devA, devB] [devB, devC] =
        [\<lparr>Device = devC, Change = DeviceAdded\<rparr>, \<lparr>Device = devA, Change = DeviceRemoved\<rparr>]
   \<and> calls (tick (None, Inr [devB, devC]) \<lparr>devices = [devA, devB], calls = []\<rparr>) =
        [(Some \<lparr>Device = devC, Change = DeviceAdded\<rparr>, None),
         (Some \<lparr>Device = devA, Change = DeviceRemoved\<rparr>, None)]"
proof -
  obtain added where a: "fst (findAdded newDevices [] (markOld oldDevices Map.empty)) =
      [] @ map (\<lambda>d. \<lparr>Device = d, Change = DeviceAdded\<rparr>) added" and s: "subseq added newDevices"
    using findAdded_subseq [of newDevices "[]" "markOld oldDevices Map.empty"] by blast
  have t1: "\<exists>added removed.
      getChangedDevices oldDevices newDevices =
        map (\<lambda>d. \<lparr>Device = d, Change = DeviceAdded\<rparr>) added
          @ map (\<lambda>d. \<lparr>Device = d, Change = DeviceRemoved\<rparr>) removed
      \<and> subseq added newDevices \<and> subseq removed oldDevices"
    using a s
    by (intro exI [of _ added] exI [of _ "filter (\<lambda>d. key d \<notin> key ` set newDevices) oldDevices"])
       (simp add: getChangedDevices_split)
  have t2: "tick (None, Inr newDevices) s =
        \<lparr>devices = newDevices,
         calls = calls s @ map (\<lambda>c. (Some c, None)) (getChangedDevices (devices s) newDevices)\<rparr>"
    by (simp add: tick_def getDevices_def notify_eq)
  have t3: "getChangedDevices [devA, devB] [devB, devC] =
        [\<lparr>Device = devC, Change = DeviceAdded\<rparr>, \<lparr>Device = devA, Change = DeviceRemoved\<rparr>]"
    by (simp add: getChangedDevices_def key_devA key_devB key_devC ex_bool_eq)
  have t4: "calls (tick (None, Inr [devB, devC]) \<lparr>devices = [devA, devB], calls = []\<rparr>) =
        [(Some \<lparr>Device = devC, Change = DeviceAdded\<rparr>, None),
         (Some \<lparr>Device = devA, Change = DeviceRemoved\<rparr>, None)]"
    by (simp add: tick_def getDevices_def notify_eq t3)
  show ?thesis using t1 t2 t3 t4 by blast
qed

section \<open>Claims about the polling engine\<close>

lemma watcher_append: "watcher (ts @ us) s = watcher us (watcher ts s)"
  by (induction ts arbitrary: s) auto

lemma tick_failed:
  "getDevices (fst t) (snd t) = Inl err \<Longrightarrow> tick t s = s\<lparr>calls := calls s @ [(None, Some err)]\<rparr>"
  by (simp add: tick_def)

lemma tick_fetched:
  "getDevices (fst t) (snd t) = Inr updatedDevices \<Longrightarrow>
   tick t s = \<lparr>devices = updatedDevices,
              calls = calls s @ map (\<lambda>c. (Some c, None)) (getChangedDevices (devices s) updatedDevices)\<rparr>"
  by (simp add: tick_def notify_eq)

lemma watcher_failed:
  "\<forall>t\<in>set ts. \<exists>err. getDevices (fst t) (snd t) = Inl err \<Longrightarrow>
   devices (watcher ts s) = devices s
   \<and> (\<exists>errs. calls (watcher ts s) = calls s @ map (\<lambda>e. (None, Some e)) errs \<and> length errs = length ts)"
proof (induction ts arbitrary: s)
  case Nil
  show ?case by simp
next
  case (Cons t ts)
  from Cons.prems obtain err where e: "getDevices (fst t) (snd t) = Inl err" by auto
  have rest: "\<forall>t\<in>set ts. \<exists>err. getDevices (fst t) (snd t) = Inl err" using Cons.prems by simp
  from Cons.IH [OF rest, of "tick t s"] obtain errs where
    d: "devices (watcher ts (tick t s)) = devices (tick t s)" and
    c: "calls (watcher ts (tick t s)) = calls (tick t s) @ map (\<lambda>e. (None, Some e)) errs" and
    l: "length errs = length ts" by blast
  show ?case
    using d c l by (intro conjI exI [of _ "err # errs"]) (simp_all add: tick_failed [OF e])
qed

lemma getChangedDevices_Nil:
  "getChangedDevices [] newDevices = map (\<lambda>d. \<lparr>Device = d, Change = DeviceAdded\<rparr>) newDevices"
  by (simp add: getChangedDevices_split findAdded_empty)

text \<open>
  C3. On a tick where the login fails, or the login succeeds and the device fetch fails,
  the listener is called exactly once, with a nil change and that error; nothing else
  changes, so the baseline is the one before the tick, and a following successful tick
  reports the difference between that baseline and its own snapshot.
\<close>

theorem tick_error_keeps_baseline:
  assumes "fst t = Some err \<or> (fst t = None \<and> snd t = Inl err)"
  shows "tick t s = s\<lparr>calls := calls s @ [(None, Some err)]\<rparr>
       \<and> devices (tick t s) = devices s
       \<and> tick (None, Inr updatedDevices) (tick t s) =
           \<lparr>devices = updatedDevices,
            calls = calls s @ [(None, Some err)]
                      @ map (\<lambda>c. (Some c, None)) (getChangedDevices (devices s) updatedDevices)\<rparr>"
proof -
  have e: "getDevices (fst t) (snd t) = Inl err"
    using assms by (auto simp: getDevices_def)
  have f: "getDevices (fst (None, Inr updatedDevices)) (snd (None, Inr updatedDevices :: error + AttachedDevice list)) = Inr updatedDevices"
    by (simp add: getDevices_def)
  show ?thesis
    by (simp add: tick_failed [OF e] tick_fetched [OF f])
qed

text \<open>
  The theorem at a failed login and at a failed fetch, from the baseline \<open>[devA, devB]\<close>,
  and at the successful tick with \<open>[devB, devC]\<close> that follows the failed fetch.
\<close>

theorem tick_error_keeps_baseline_witness:
  "tick (Some (LoginStatus 401), Inr [devC]) \<lparr>devices = [devA, devB], calls = []\<rparr>
     = \<lparr>devices = [devA, devB], calls = [(None, Some (LoginStatus 401))]\<rparr>
   \<and> tick (None, Inl (DevicesStatus 1)) \<lparr>devices = [devA, devB], calls = []\<rparr>
     = \<lparr>devices = [devA, devB], calls = [(None, Some (DevicesStatus 1))]\<rparr>
   \<and> tick (None, Inr [devB, devC]) (tick (None, Inl (DevicesStatus 1)) \<lparr>devices = [devA, devB], calls = []\<rparr>)
     = \<lparr>devices = [devB, devC],
        calls = [(None, Some (DevicesStatus 1)),
                 (Some \<lparr>Device = devC, Change = DeviceAdded\<rparr>, None),
                 (Some \<lparr>Device = devA, Change = DeviceRemoved\<rparr>, None)]\<rparr>"
proof -
  have g: "getChangedDevices [devA, devB] [devB, devC] =
        [\<lparr>Device = devC, Change = DeviceAdded\<rparr>, \<lparr>Device = devA, Change = DeviceRemoved\<rparr>]"
    by (simp add: getChangedDevices_def key_devA key_devB key_devC ex_bool_eq)
  have h1: "fst (Some (LoginStatus 401), Inr [devC]) = Some (LoginStatus 401)
      \<or> (fst (Some (LoginStatus 401), Inr [devC]) = None \<and> snd (Some (LoginStatus 401), Inr [devC]) = Inl (LoginStatus 401))"
    by simp
  have h2: "fst (None :: error option, Inl (DevicesStatus 1) :: error + AttachedDevice list) = Some (DevicesStatus 1)
      \<or> (fst (None :: error option, Inl (DevicesStatus 1) :: error + AttachedDevice list) = None
          \<and> snd (None :: error option, Inl (DevicesStatus 1) :: error + AttachedDevice list) = Inl (DevicesStatus 1))"
    by simp
  note w1 = tick_error_keeps_baseline [OF h1, of "\<lparr>devices = [devA, devB], calls = []\<rparr>" "[devB, devC]"]
  note w2 = tick_error_keeps_baseline [OF h2, of "\<lparr>devices = [devA, devB], calls = []\<rparr>" "[devB, devC]"]
  have a: "tick (Some (LoginStatus 401), Inr [devC]) \<lparr>devices = [devA, devB], calls = []\<rparr>
     = \<lparr>devices = [devA, devB], calls = [(None, Some (LoginStatus 401))]\<rparr>"
    using w1 [THEN conjunct1] by simp
  have b: "tick (None, Inl (DevicesStatus 1)) \<lparr>devices = [devA, devB], calls = []\<rparr>
     = \<lparr>devices = [devA, devB], calls = [(None, Some (DevicesStatus 1))]\<rparr>"
    using w2 [THEN conjunct1] by simp
  have c: "tick (None, Inr [devB, devC]) (tick (None, Inl (DevicesStatus 1)) \<lparr>devices = [devA, devB], calls = []\<rparr>)
     = \<lparr>devices = [devB, devC],
        calls = [(None, Some (DevicesStatus 1)),
                 (Some \<lparr>Device = devC, Change = DeviceAdded\<rparr>, None),
                 (Some \<lparr>Device = devA, Change = DeviceRemoved\<rparr>, None)]\<rparr>"
    using w2 [THEN conjunct2, THEN conjunct2] by (simp add: g)
  show ?thesis
    by (intro conjI) (rule a, rule b, rule c)
qed

text \<open>
  C8. The engine starts with an empty baseline and keeps it through ticks that fail, which
  report no change. The first successful tick then calls the listener once per device of
  the fetched snapshot, in order, each time with a \<open>DeviceAdded\<close> change, and with no
  \<open>DeviceRemoved\<close> change.
\<close>

theorem first_successful_tick_all_added:
  assumes "\<forall>t\<in>set failed. \<exists>err. getDevices (fst t) (snd t) = Inl err"
  shows "devices (OnDeviceChanged []) = []
       \<and> devices (OnDeviceChanged failed) = []
       \<and> (\<forall>c\<in>set (calls (OnDeviceChanged failed)). fst c = None)
       \<and> calls (OnDeviceChanged (failed @ [(None, Inr updatedDevices)])) =
           calls (OnDeviceChanged failed)
             @ map (\<lambda>d. (Some \<lparr>Device = d, Change = DeviceAdded\<rparr>, None)) updatedDevices
       \<and> devices (OnDeviceChanged (failed @ [(None, Inr updatedDevices)])) = updatedDevices"
proof -
  let ?s0 = "\<lparr>devices = [], calls = []\<rparr>"
  from watcher_failed [OF assms, of ?s0] obtain errs where
    d: "devices (watcher failed ?s0) = []" and
    c: "calls (watcher failed ?s0) = map (\<lambda>e. (None, Some e)) errs" by auto
  have f: "getDevices (fst (None, Inr updatedDevices)) (snd (None, Inr updatedDevices :: error + AttachedDevice list)) = Inr updatedDevices"
    by (simp add: getDevices_def)
  have "watcher (failed @ [(None, Inr updatedDevices)]) ?s0 =
      \<lparr>devices = updatedDevices,
       calls = calls (watcher failed ?s0)
                 @ map (\<lambda>c. (Some c, None)) (map (\<lambda>d. \<lparr>Device = d, Change = DeviceAdded\<rparr>) updatedDevices)\<rparr>"
    by (simp add: watcher_append tick_fetched [OF f] d getChangedDevices_Nil)
  then show ?thesis
    using d c by (auto simp: OnDeviceChanged_def o_def)
qed

text \<open>The theorem for a first tick that succeeds and for one that follows a failed login.\<close>

theorem first_successful_tick_all_added_witness:
  "getDevices (Some (LoginStatus 401)) (Inr [devC]) = Inl (LoginStatus 401)
   \<and> calls (OnDeviceChanged [(Some (LoginStatus 401), Inr [devC]), (None, Inr [devA, devB])]) =
       [(None, Some (LoginStatus 401)),
        (Some \<lparr>Device = devA, Change = DeviceAdded\<rparr>, None),
        (Some \<lparr>Device = devB, Change = DeviceAdded\<rparr>, None)]
   \<and> calls (OnDeviceChanged [(None, Inr [devA, devB])]) =
       [(Some \<lparr>Device = devA, Change = DeviceAdded\<rparr>, None),
        (Some \<lparr>Device = devB, Change = DeviceAdded\<rparr>, None)]"
proof -
  have h: "\<forall>t\<in>set [(Some (LoginStatus 401), Inr [devC])]. \<exists>err. getDevices (fst t) (snd t) = Inl err"
    by (simp add: getDevices_def)
  have h0: "\<forall>t\<in>set ([] :: (error option \<times> (error + AttachedDevice list)) list). \<exists>err. getDevices (fst t) (snd t) = Inl err"
    by simp
  have c: "calls (OnDeviceChanged [(Some (LoginStatus 401), Inr [devC])]) = [(None, Some (LoginStatus 401))]"
    by (simp add: OnDeviceChanged_def tick_def getDevices_def)
  have c0: "calls (OnDeviceChanged []) = []"
    by (simp add: OnDeviceChanged_def)
  have g: "getDevices (Some (LoginStatus 401)) (Inr [devC]) = Inl (LoginStatus 401)"
    by (simp add: getDevices_def)
  show ?thesis
    using g first_successful_tick_all_added [OF h, of "[devA, devB]"]
          first_successful_tick_all_added [OF h0, of "[devA, devB]"]
    by (simp add: c c0)
qed

section \<open>Properties of the decoder\<close>

lemma ParseMAC_Inl: "ParseMAC s = Inl e \<Longrightarrow> e = InvalidAddress s"
  by (auto simp: ParseMAC_def Let_def split: if_splits option.splits)

lemma ParseUint_loop_nondigit: "\<not> list_all isDigit cs \<Longrightarrow> \<exists>e. ParseUint_loop cs n = Inl e"
  by (induction cs arbitrary: n) (auto simp: Let_def)

lemma Atoi_Nil: "Atoi [] = (0, Some (InvalidNumber [] ErrSyntax))"
  by (simp add: Atoi_def)

lemma Atoi_error: "snd (Atoi s) = Some err \<Longrightarrow> \<exists>e. err = InvalidNumber s e"
  by (auto simp: Atoi_def Let_def split: if_splits sum.splits NumErr.splits)

lemma Atoi_not_numeric:
  assumes "\<not> isNumeric s"
  shows "\<exists>e. snd (Atoi s) = Some (InvalidNumber s e)"
proof (cases "s = []")
  case True
  then show ?thesis by (simp add: Atoi_Nil)
next
  case False
  define t where "t = (if hd s = CHR ''+'' \<or> hd s = CHR ''-'' then tl s else s)"
  have nt: "t = [] \<or> \<not> list_all isDigit t"
    using assms False by (auto simp: isNumeric_def Let_def t_def)
  have "\<exists>e. ParseUint t = Inl e"
  proof (cases "t = []")
    case True
    then show ?thesis by (simp add: ParseUint_def)
  next
    case False
    then show ?thesis using nt ParseUint_loop_nondigit [of t 0] by (simp add: ParseUint_def)
  qed
  then obtain e where e: "ParseUint t = Inl e" by blast
  show ?thesis
    using False e unfolding Atoi_def Let_def t_def [symmetric]
    by (cases e) auto
qed

lemma parseDevice_malformed:
  "length (partsOf devStr) \<noteq> 8 \<Longrightarrow> parseDevice pip devStr = Inl (MalformedRecord devStr)"
  by (simp add: parseDevice_def partsOf_def Let_def)

lemma parseDevice_bad_mac:
  "length (partsOf devStr) = 8 \<Longrightarrow> ParseMAC (partsOf devStr ! 3) = Inl e \<Longrightarrow>
   parseDevice pip devStr = Inl (InvalidAddress (partsOf devStr ! 3))"
  using ParseMAC_Inl [of "partsOf devStr ! 3" e]
  by (simp add: parseDevice_def partsOf_def Let_def)

text \<open>The value of an accepted numeric field.\<close>

lemma parseDevice_fields:
  assumes "length (partsOf devStr) = 8" and "ParseMAC (partsOf devStr ! 3) = Inr mac"
  shows "parseDevice pip devStr =
     (case (if partsOf devStr ! 5 \<noteq> [] then snd (Atoi (partsOf devStr ! 5)) else None) of
        Some e \<Rightarrow> Inl e
      | None \<Rightarrow>
          (case (if partsOf devStr ! 6 \<noteq> [] then snd (Atoi (partsOf devStr ! 6)) else None) of
             Some e \<Rightarrow> Inl e
           | None \<Rightarrow>
               Inr \<lparr>IP = pip (partsOf devStr ! 1), Name = partsOf devStr ! 2, MAC = mac,
                    Type = partsOf devStr ! 4,
                    LinkRate = fst (Atoi (partsOf devStr ! 6)),
                    Signal = fst (Atoi (partsOf devStr ! 5))\<rparr>))"
  using assms
  by (auto simp: parseDevice_def partsOf_def Let_def split: prod.splits option.splits)

lemma parseDevice_error_indep:
  "(parseDevice pip devStr = Inl e) = (parseDevice pip' devStr = Inl e)"
proof (cases "length (partsOf devStr) = 8")
  case False
  then show ?thesis by (simp add: parseDevice_malformed)
next
  case True
  show ?thesis
  proof (cases "ParseMAC (partsOf devStr ! 3)")
    case (Inl a)
    then show ?thesis by (simp add: parseDevice_bad_mac [OF True])
  next
    case (Inr mac)
    show ?thesis
      by (simp add: parseDevice_fields [OF True Inr] split: option.splits)
  qed
qed

lemma parseDevice_IP:
  "parseDevice pip devStr = Inr dev \<Longrightarrow> IP dev = pip (partsOf devStr ! 1)"
proof (cases "length (partsOf devStr) = 8")
  case False
  assume "parseDevice pip devStr = Inr dev"
  then show ?thesis using False by (simp add: parseDevice_malformed)
next
  case True
  assume a: "parseDevice pip devStr = Inr dev"
  show ?thesis
  proof (cases "ParseMAC (partsOf devStr ! 3)")
    case (Inl e)
    then show ?thesis using a by (simp add: parseDevice_bad_mac [OF True])
  next
    case (Inr mac)
    show ?thesis
      using a by (auto simp: parseDevice_fields [OF True Inr] split: option.splits if_splits)
  qed
qed

lemma loop_first_error:
  "i < length devStrs \<Longrightarrow> parseDevice pip (devStrs ! i) = Inl e \<Longrightarrow>
   \<forall>j<i. \<exists>dev. parseDevice pip (devStrs ! j) = Inr dev \<Longrightarrow>
   parseDevices_loop pip devStrs = Inl e"
proof (induction devStrs arbitrary: i)
  case Nil
  then show ?case by simp
next
  case (Cons d ds)
  show ?case
  proof (cases i)
    case 0
    then show ?thesis using Cons.prems by simp
  next
    case (Suc k)
    from Cons.prems(3) Suc obtain dev where dev: "parseDevice pip d = Inr dev" by fastforce
    have "\<forall>j<k. \<exists>dev. parseDevice pip (ds ! j) = Inr dev"
      using Cons.prems(3) Suc by fastforce
    then have "parseDevices_loop pip ds = Inl e"
      using Cons.IH [of k] Cons.prems Suc by simp
    then show ?thesis using dev by simp
  qed
qed

lemma loop_some_error:
  "i < length devStrs \<Longrightarrow> parseDevice pip (devStrs ! i) = Inl e \<Longrightarrow>
   \<exists>err. parseDevices_loop pip devStrs = Inl err"
proof (induction devStrs arbitrary: i)
  case Nil
  then show ?case by simp
next
  case (Cons d ds)
  show ?case
  proof (cases i)
    case 0
    then show ?thesis using Cons.prems by simp
  next
    case (Suc k)
    then obtain err where "parseDevices_loop pip ds = Inl err"
      using Cons.IH [of k] Cons.prems by auto
    then show ?thesis by (simp split: sum.splits)
  qed
qed

lemma loop_Inr:
  "parseDevices_loop pip devStrs = Inr devList \<Longrightarrow>
   length devList = length devStrs \<and> (\<forall>i<length devStrs. parseDevice pip (devStrs ! i) = Inr (devList ! i))"
proof (induction devStrs arbitrary: devList)
  case Nil
  then show ?case by simp
next
  case (Cons d ds)
  from Cons.prems obtain dev rest where
    dev: "parseDevice pip d = Inr dev" and rest: "parseDevices_loop pip ds = Inr rest" and
    dl: "devList = dev # rest"
    by (auto split: sum.splits)
  from Cons.IH [OF rest] have l: "length rest = length ds"
    and a: "\<forall>i<length ds. parseDevice pip (ds ! i) = Inr (rest ! i)" by auto
  show ?case
    using dev l a dl by (auto simp: nth_Cons split: nat.splits)
qed

lemma loop_error_indep:
  "(parseDevices_loop pip devStrs = Inl e) = (parseDevices_loop pip' devStrs = Inl e)"
proof (induction devStrs)
  case Nil
  show ?case by simp
next
  case (Cons d ds)
  show ?case
  proof (cases "parseDevice pip d")
    case (Inl a)
    then have "parseDevice pip' d = Inl a" using parseDevice_error_indep [of pip d a pip'] by simp
    then show ?thesis using Inl by simp
  next
    case (Inr dev)
    have "\<exists>dev'. parseDevice pip' d = Inr dev'"
    proof (cases "parseDevice pip' d")
      case (Inl a)
      then show ?thesis using Inr parseDevice_error_indep [of pip d a pip'] by simp
    next
      case (Inr b)
      then show ?thesis by blast
    qed
    then obtain dev' where dev': "parseDevice pip' d = Inr dev'" by blast
    show ?thesis using Inr dev' Cons.IH by (auto split: sum.splits)
  qed
qed

lemma parseDevicesString_Return:
  "2 \<le> length input \<Longrightarrow>
   parseDevicesString pip input = Return (parseDevices_loop pip (devStrsOf input))"
  by (simp add: parseDevicesString_def devStrsOf_def)

text \<open>
  With the guard \<open>len(parts) != 8\<close> no index expression of the loop body is out of range,
  and with \<open>devList\<close> as long as \<open>devStrs\<close> no assignment is: the checked decoder is the
  decoder.
\<close>

lemma parseDevice_checked_eq: "parseDevice_checked pip devStr = Some (parseDevice pip devStr)"
  by (auto simp: parseDevice_checked_def parseDevice_def indexExpr_def Let_def
           split: sum.splits prod.splits)

lemma take_Suc_update: "i < length xs \<Longrightarrow> take (Suc i) (xs[i := v]) = take i xs @ [v]"
  by (simp add: take_Suc_conv_app_nth)

lemma loop_checked_eq:
  "length devList = i + length devStrs \<Longrightarrow>
   parseDevices_loop_checked pip devStrs i devList =
     Some (case parseDevices_loop pip devStrs of
             Inl err \<Rightarrow> Inl err
           | Inr devs \<Rightarrow> Inr (take i devList @ devs))"
proof (induction devStrs arbitrary: i devList)
  case Nil
  then show ?case by simp
next
  case (Cons d ds)
  show ?case
  proof (cases "parseDevice pip d")
    case (Inl err)
    then show ?thesis by (simp add: parseDevice_checked_eq)
  next
    case (Inr dev)
    have i: "i < length devList" using Cons.prems by simp
    have l: "length (devList[i := dev]) = Suc i + length ds" using Cons.prems by simp
    have "parseDevices_loop_checked pip (d # ds) i devList =
        parseDevices_loop_checked pip ds (Suc i) (devList[i := dev])"
      using Inr i by (simp add: parseDevice_checked_eq assignExpr_def)
    also have "\<dots> = Some (case parseDevices_loop pip ds of
             Inl err \<Rightarrow> Inl err
           | Inr devs \<Rightarrow> Inr (take (Suc i) (devList[i := dev]) @ devs))"
      by (rule Cons.IH [OF l])
    also have "\<dots> = Some (case parseDevices_loop pip (d # ds) of
             Inl err \<Rightarrow> Inl err
           | Inr devs \<Rightarrow> Inr (take i devList @ devs))"
      using Inr i by (simp add: take_Suc_update split: sum.splits)
    finally show ?thesis .
  qed
qed

lemma parseDevicesString_checked_eq:
  "parseDevicesString_checked pip input = parseDevicesString pip input"
proof (cases "length input < 2")
  case True
  then show ?thesis by (simp add: parseDevicesString_checked_def parseDevicesString_def sliceExpr_def)
next
  case False
  have "parseDevices_loop_checked pip (Split (drop 2 input) (CHR ''@'')) 0
          (replicate (length (Split (drop 2 input) (CHR ''@''))) zeroDevice)
        = Some (parseDevices_loop pip (Split (drop 2 input) (CHR ''@'')))"
    by (simp add: loop_checked_eq split: sum.splits)
  then show ?thesis
    using False by (simp add: parseDevicesString_checked_def parseDevicesString_def sliceExpr_def Let_def)
qed

lemma parseDevice_decodable:
  "(\<exists>dev. parseDevice pip devStr = Inr dev) = decodable devStr"
proof (cases "length (partsOf devStr) = 8")
  case False
  then show ?thesis by (simp add: parseDevice_malformed decodable_def Let_def)
next
  case True
  show ?thesis
  proof (cases "ParseMAC (partsOf devStr ! 3)")
    case (Inl e)
    then show ?thesis by (simp add: parseDevice_bad_mac [OF True] decodable_def Let_def)
  next
    case (Inr mac)
    show ?thesis
      using True Inr
      by (auto simp: parseDevice_fields [OF True Inr] decodable_def Let_def split: option.splits)
  qed
qed

lemma parseDevice_of_decodable:
  assumes "decodable devStr"
  shows "parseDevice pip devStr =
     Inr \<lparr>IP = pip (partsOf devStr ! 1), Name = partsOf devStr ! 2,
          MAC = projr (ParseMAC (partsOf devStr ! 3)), Type = partsOf devStr ! 4,
          LinkRate = fst (Atoi (partsOf devStr ! 6)), Signal = fst (Atoi (partsOf devStr ! 5))\<rparr>"
proof -
  have len: "length (partsOf devStr) = 8" using assms by (simp add: decodable_def Let_def)
  obtain mac where m: "ParseMAC (partsOf devStr ! 3) = Inr mac"
    using assms by (cases "ParseMAC (partsOf devStr ! 3)") (auto simp: decodable_def Let_def)
  show ?thesis
    using assms m by (auto simp: parseDevice_fields [OF len m] decodable_def Let_def)
qed

lemma loop_of_decodable:
  "\<forall>d\<in>set devStrs. decodable d \<Longrightarrow>
   parseDevices_loop pip devStrs = Inr (map (\<lambda>d. projr (parseDevice pip d)) devStrs)"
proof (induction devStrs)
  case Nil
  show ?case by simp
next
  case (Cons d ds)
  from Cons.prems have "decodable d" by simp
  then obtain dev where "parseDevice pip d = Inr dev"
    using parseDevice_decodable [of pip d] by blast
  then show ?case using Cons by simp
qed

lemma loop_decodes_iff:
  "(\<exists>devList. parseDevices_loop pip devStrs = Inr devList) = (\<forall>d\<in>set devStrs. decodable d)"
proof (induction devStrs)
  case Nil
  show ?case by simp
next
  case (Cons d ds)
  show ?case
  proof (cases "parseDevice pip d")
    case (Inl e)
    then have "\<not> decodable d" using parseDevice_decodable [of pip d] by simp
    then show ?thesis using Inl by simp
  next
    case (Inr dev)
    then have "decodable d" using parseDevice_decodable [of pip d] by blast
    then show ?thesis using Inr Cons.IH by (auto split: sum.splits)
  qed
qed

lemma net_ParseIP_loop_none:
  "\<forall>c\<in>set cs. c \<noteq> CHR ''.'' \<and> c \<noteq> CHR '':'' \<Longrightarrow> net_ParseIP_loop v4 v6 s cs = None"
  by (induction cs) auto

section \<open>The decoder on example inputs\<close>

lemma ParseMAC_aa: "ParseMAC ''aa:aa:aa:aa:aa:aa'' = Inr [0xaa, 0xaa, 0xaa, 0xaa, 0xaa, 0xaa]"
  by code_simp

lemma ParseMAC_bb: "ParseMAC ''bb:bb:bb:bb:bb:bb'' = Inr [0xbb, 0xbb, 0xbb, 0xbb, 0xbb, 0xbb]"
  by code_simp

lemma ParseMAC_short: "length s < 14 \<Longrightarrow> ParseMAC s = Inl (InvalidAddress s)"
  by (simp add: ParseMAC_def)

lemma Atoi_m50: "Atoi ''-50'' = (- 50, None)"
  by (simp add: Atoi_def ParseUint_def isDigit_def)

lemma Atoi_100: "Atoi ''100'' = (100, None)"
  by (simp add: Atoi_def ParseUint_def isDigit_def)

lemma not_numeric_abc: "\<not> isNumeric ''abc''"
  by (simp add: isNumeric_def isDigit_def)

lemma parts_phone:
  "partsOf ''0;10.0.0.2;phone;aa:aa:aa:aa:aa:aa;wifi;-50;100;x''
     = [''0'', ''10.0.0.2'', ''phone'', ''aa:aa:aa:aa:aa:aa'', ''wifi'', ''-50'', ''100'', ''x'']"
  by (simp add: partsOf_def)

lemma parts_tv:
  "partsOf ''0;10.0.0.3;tv;bb:bb:bb:bb:bb:bb;eth;;;x''
     = [''0'', ''10.0.0.3'', ''tv'', ''bb:bb:bb:bb:bb:bb'', ''eth'', '''', '''', ''x'']"
  by (simp add: partsOf_def)

lemma parts_nomac:
  "partsOf ''0;10.0.0.3;tv;nomac;eth;;;x''
     = [''0'', ''10.0.0.3'', ''tv'', ''nomac'', ''eth'', '''', '''', ''x'']"
  by (simp add: partsOf_def)

lemma parts_zz:
  "partsOf ''0;10.0.0.2;phone;zz;wifi;abc;100;x''
     = [''0'', ''10.0.0.2'', ''phone'', ''zz'', ''wifi'', ''abc'', ''100'', ''x'']"
  by (simp add: partsOf_def)

lemma parts_abc:
  "partsOf ''0;10.0.0.2;phone;aa:aa:aa:aa:aa:aa;wifi;abc;100;x''
     = [''0'', ''10.0.0.2'', ''phone'', ''aa:aa:aa:aa:aa:aa'', ''wifi'', ''abc'', ''100'', ''x'']"
  by (simp add: partsOf_def)

lemma parts_noip:
  "partsOf ''0;;phone;aa:aa:aa:aa:aa:aa;wifi;-50;100;x''
     = [''0'', '''', ''phone'', ''aa:aa:aa:aa:aa:aa'', ''wifi'', ''-50'', ''100'', ''x'']"
  by (simp add: partsOf_def)

lemma parts_short: "partsOf ''short'' = [''short'']"
  by (simp add: partsOf_def)

lemma parseDevice_phone:
  "parseDevice pip ''0;10.0.0.2;phone;aa:aa:aa:aa:aa:aa;wifi;-50;100;x'' =
     Inr \<lparr>IP = pip ''10.0.0.2'', Name = ''phone'', MAC = [0xaa, 0xaa, 0xaa, 0xaa, 0xaa, 0xaa],
          Type = ''wifi'', LinkRate = 100, Signal = - 50\<rparr>"
  by (simp add: parseDevice_fields [where mac = "[0xaa, 0xaa, 0xaa, 0xaa, 0xaa, 0xaa]"]
        parts_phone ParseMAC_aa Atoi_m50 Atoi_100)

lemma parseDevice_tv:
  "parseDevice pip ''0;10.0.0.3;tv;bb:bb:bb:bb:bb:bb;eth;;;x'' =
     Inr \<lparr>IP = pip ''10.0.0.3'', Name = ''tv'', MAC = [0xbb, 0xbb, 0xbb, 0xbb, 0xbb, 0xbb],
          Type = ''eth'', LinkRate = 0, Signal = 0\<rparr>"
  by (simp add: parseDevice_fields [where mac = "[0xbb, 0xbb, 0xbb, 0xbb, 0xbb, 0xbb]"]
        parts_tv ParseMAC_bb Atoi_Nil)

lemma parseDevice_noip:
  "parseDevice pip ''0;;phone;aa:aa:aa:aa:aa:aa;wifi;-50;100;x'' =
     Inr \<lparr>IP = pip '''', Name = ''phone'', MAC = [0xaa, 0xaa, 0xaa, 0xaa, 0xaa, 0xaa],
          Type = ''wifi'', LinkRate = 100, Signal = - 50\<rparr>"
  by (simp add: parseDevice_fields [where mac = "[0xaa, 0xaa, 0xaa, 0xaa, 0xaa, 0xaa]"]
        parts_noip ParseMAC_aa Atoi_m50 Atoi_100)

lemma parseDevice_zz:
  "parseDevice pip ''0;10.0.0.2;phone;zz;wifi;abc;100;x'' = Inl (InvalidAddress ''zz'')"
  using parseDevice_bad_mac [of "''0;10.0.0.2;phone;zz;wifi;abc;100;x''" "InvalidAddress ''zz''" pip]
  by (simp add: parts_zz ParseMAC_short)

lemma parseDevice_nomac:
  "parseDevice pip ''0;10.0.0.3;tv;nomac;eth;;;x'' = Inl (InvalidAddress ''nomac'')"
  using parseDevice_bad_mac [of "''0;10.0.0.3;tv;nomac;eth;;;x''" "InvalidAddress ''nomac''" pip]
  by (simp add: parts_nomac ParseMAC_short)

lemma parseDevice_short: "parseDevice pip ''short'' = Inl (MalformedRecord ''short'')"
  by (simp add: parseDevice_malformed parts_short)

lemma devStrs_phone_short:
  "devStrsOf ''2@0;10.0.0.2;phone;aa:aa:aa:aa:aa:aa;wifi;-50;100;x@short''
     = [''0;10.0.0.2;phone;aa:aa:aa:aa:aa:aa;wifi;-50;100;x'', ''short'']"
  by (simp add: devStrsOf_def)

lemma devStrs_zz_short:
  "devStrsOf ''2@0;10.0.0.2;phone;zz;wifi;abc;100;x@short''
     = [''0;10.0.0.2;phone;zz;wifi;abc;100;x'', ''short'']"
  by (simp add: devStrsOf_def)

lemma devStrs_phone_nomac:
  "devStrsOf ''2@0;10.0.0.2;phone;aa:aa:aa:aa:aa:aa;wifi;-50;100;x@0;10.0.0.3;tv;nomac;eth;;;x''
     = [''0;10.0.0.2;phone;aa:aa:aa:aa:aa:aa;wifi;-50;100;x'', ''0;10.0.0.3;tv;nomac;eth;;;x'']"
  by (simp add: devStrsOf_def)

lemma devStrs_short_nomac:
  "devStrsOf ''2@short@0;10.0.0.3;tv;nomac;eth;;;x'' = [''short'', ''0;10.0.0.3;tv;nomac;eth;;;x'']"
  by (simp add: devStrsOf_def)

lemma devStrs_example:
  "devStrsOf ''2@0;10.0.0.2;phone;aa:aa:aa:aa:aa:aa;wifi;-50;100;x@0;10.0.0.3;tv;bb:bb:bb:bb:bb:bb;eth;;;x''
     = [''0;10.0.0.2;phone;aa:aa:aa:aa:aa:aa;wifi;-50;100;x'', ''0;10.0.0.3;tv;bb:bb:bb:bb:bb:bb;eth;;;x'']"
  by (simp add: devStrsOf_def)

lemma devStrs_abc:
  "devStrsOf ''1@0;10.0.0.2;phone;aa:aa:aa:aa:aa:aa;wifi;abc;100;x''
     = [''0;10.0.0.2;phone;aa:aa:aa:aa:aa:aa;wifi;abc;100;x'']"
  by (simp add: devStrsOf_def)

lemma devStrs_zz:
  "devStrsOf ''1@0;10.0.0.2;phone;zz;wifi;abc;100;x'' = [''0;10.0.0.2;phone;zz;wifi;abc;100;x'']"
  by (simp add: devStrsOf_def)

lemma devStrs_noip_tv:
  "devStrsOf ''2@0;;phone;aa:aa:aa:aa:aa:aa;wifi;-50;100;x@0;10.0.0.3;tv;bb:bb:bb:bb:bb:bb;eth;;;x''
     = [''0;;phone;aa:aa:aa:aa:aa:aa;wifi;-50;100;x'', ''0;10.0.0.3;tv;bb:bb:bb:bb:bb:bb;eth;;;x'']"
  by (simp add: devStrsOf_def)

lemma parseDevicesString_example:
  "parseDevicesString pip
     ''2@0;10.0.0.2;phone;aa:aa:aa:aa:aa:aa;wifi;-50;100;x@0;10.0.0.3;tv;bb:bb:bb:bb:bb:bb;eth;;;x''
   = Return (Inr [\<lparr>IP = pip ''10.0.0.2'', Name = ''phone'', MAC = [0xaa, 0xaa, 0xaa, 0xaa, 0xaa, 0xaa],
                   Type = ''wifi'', LinkRate = 100, Signal = - 50\<rparr>,
                  \<lparr>IP = pip ''10.0.0.3'', Name = ''tv'', MAC = [0xbb, 0xbb, 0xbb, 0xbb, 0xbb, 0xbb],
                   Type = ''eth'', LinkRate = 0, Signal = 0\<rparr>])"
  by (simp add: parseDevicesString_Return devStrs_example parseDevice_phone parseDevice_tv)

lemma parts_garbage:
  "partsOf ''0;garbage;tv;bb:bb:bb:bb:bb:bb;eth;;;x''
     = [''0'', ''garbage'', ''tv'', ''bb:bb:bb:bb:bb:bb'', ''eth'', '''', '''', ''x'']"
  by (simp add: partsOf_def)

lemma devStrs_noip_garbage:
  "devStrsOf ''2@0;;phone;aa:aa:aa:aa:aa:aa;wifi;-50;100;x@0;garbage;tv;bb:bb:bb:bb:bb:bb;eth;;;x''
     = [''0;;phone;aa:aa:aa:aa:aa:aa;wifi;-50;100;x'', ''0;garbage;tv;bb:bb:bb:bb:bb:bb;eth;;;x'']"
  by (simp add: devStrsOf_def)

lemma decodable_noip: "decodable ''0;;phone;aa:aa:aa:aa:aa:aa;wifi;-50;100;x''"
  by (simp add: decodable_def parts_noip ParseMAC_aa Atoi_m50 Atoi_100)

lemma decodable_garbage: "decodable ''0;garbage;tv;bb:bb:bb:bb:bb:bb;eth;;;x''"
  by (simp add: decodable_def parts_garbage ParseMAC_bb)

section \<open>Claims about the decoder\<close>

text \<open>
  C4 (as amended). For an input of at least two bytes, if some device string does not
  split on \<open>;\<close> into exactly 8 fields, the decode returns an error and no device list.
  The error is the one of the first device string that fails: it is \<open>MalformedRecord\<close>
  with the offending device string when every earlier device string decodes without error.
\<close>

theorem parseDevicesString_malformed_record:
  assumes "2 \<le> length input"
    and "i < length (devStrsOf input)"
    and "length (partsOf (devStrsOf input ! i)) \<noteq> 8"
  shows "(\<exists>err. parseDevicesString ParseIP input = Return (Inl err))
       \<and> ((\<forall>j<i. \<exists>dev. parseDevice ParseIP (devStrsOf input ! j) = Inr dev) \<longrightarrow>
            parseDevicesString ParseIP input = Return (Inl (MalformedRecord (devStrsOf input ! i))))"
proof -
  have e: "parseDevice ParseIP (devStrsOf input ! i) = Inl (MalformedRecord (devStrsOf input ! i))"
    by (rule parseDevice_malformed [OF assms(3)])
  have r: "parseDevicesString ParseIP input = Return (parseDevices_loop ParseIP (devStrsOf input))"
    by (rule parseDevicesString_Return [OF assms(1)])
  from loop_some_error [OF assms(2) e] have "\<exists>err. parseDevicesString ParseIP input = Return (Inl err)"
    by (simp add: r)
  moreover have "parseDevicesString ParseIP input = Return (Inl (MalformedRecord (devStrsOf input ! i)))"
    if "\<forall>j<i. \<exists>dev. parseDevice ParseIP (devStrsOf input ! j) = Inr dev"
    using loop_first_error [OF assms(2) e that] by (simp add: r)
  ultimately show ?thesis by blast
qed

text \<open>
  The theorem at an input whose first device string decodes and whose second one has a
  single field.
\<close>

theorem parseDevicesString_malformed_record_witness:
  "devStrsOf ''2@0;10.0.0.2;phone;aa:aa:aa:aa:aa:aa;wifi;-50;100;x@short''
     = [''0;10.0.0.2;phone;aa:aa:aa:aa:aa:aa;wifi;-50;100;x'', ''short'']
   \<and> partsOf ''short'' = [''short'']
   \<and> parseDevicesString (\<lambda>_. None) ''2@0;10.0.0.2;phone;aa:aa:aa:aa:aa:aa;wifi;-50;100;x@short''
       = Return (Inl (MalformedRecord ''short''))"
proof -
  let ?input = "''2@0;10.0.0.2;phone;aa:aa:aa:aa:aa:aa;wifi;-50;100;x@short''"
  have h1: "2 \<le> length ?input" by simp
  have h2: "1 < length (devStrsOf ?input)" by (simp add: devStrs_phone_short)
  have h3: "length (partsOf (devStrsOf ?input ! 1)) \<noteq> 8" by (simp add: devStrs_phone_short parts_short)
  have h4: "\<forall>j<1. \<exists>dev. parseDevice (\<lambda>_. None) (devStrsOf ?input ! j) = Inr dev"
    by (simp add: devStrs_phone_short parseDevice_phone)
  from parseDevicesString_malformed_record [OF h1 h2 h3, of "\<lambda>_. None"] h4
  have "parseDevicesString (\<lambda>_. None) ?input = Return (Inl (MalformedRecord (devStrsOf ?input ! 1)))"
    by blast
  then show ?thesis by (simp add: devStrs_phone_short parts_short)
qed

text \<open>
  C4, the case left out. The condition on the earlier device strings is needed: when an
  earlier device string has 8 fields and a MAC that does not parse, the decode returns
  \<open>InvalidAddress\<close>, although a later device string has the wrong number of fields.
\<close>

theorem parseDevicesString_malformed_record_counterexample:
  "devStrsOf ''2@0;10.0.0.2;phone;zz;wifi;abc;100;x@short''
     = [''0;10.0.0.2;phone;zz;wifi;abc;100;x'', ''short'']
   \<and> length (partsOf ''short'') \<noteq> 8
   \<and> parseDevicesString (\<lambda>_. None) ''2@0;10.0.0.2;phone;zz;wifi;abc;100;x@short''
       = Return (Inl (InvalidAddress ''zz''))"
  by (simp add: parseDevicesString_Return devStrs_zz_short parts_short parseDevice_zz)

text \<open>
  C5 (as amended). For an input of at least two bytes, if field 3 of some device string
  does not parse as a hardware address, the decode returns an error and no device list,
  also when earlier device strings decoded. The error is \<open>InvalidAddress\<close> for that field
  when the device string has exactly 8 fields and every earlier device string decodes
  without error.
\<close>

theorem parseDevicesString_invalid_address:
  assumes "2 \<le> length input"
    and "i < length (devStrsOf input)"
    and "3 < length (partsOf (devStrsOf input ! i))"
    and "ParseMAC (partsOf (devStrsOf input ! i) ! 3) = Inl e"
  shows "(\<exists>err. parseDevicesString ParseIP input = Return (Inl err))
       \<and> (length (partsOf (devStrsOf input ! i)) = 8
            \<and> (\<forall>j<i. \<exists>dev. parseDevice ParseIP (devStrsOf input ! j) = Inr dev) \<longrightarrow>
            parseDevicesString ParseIP input =
              Return (Inl (InvalidAddress (partsOf (devStrsOf input ! i) ! 3))))"
proof -
  let ?d = "devStrsOf input ! i"
  have r: "parseDevicesString ParseIP input = Return (parseDevices_loop ParseIP (devStrsOf input))"
    by (rule parseDevicesString_Return [OF assms(1)])
  have "\<exists>err. parseDevice ParseIP ?d = Inl err"
  proof (cases "length (partsOf ?d) = 8")
    case True
    then show ?thesis using parseDevice_bad_mac [OF True assms(4)] by blast
  next
    case False
    then show ?thesis using parseDevice_malformed by blast
  qed
  then obtain err where "parseDevice ParseIP ?d = Inl err" by blast
  from loop_some_error [OF assms(2) this] have "\<exists>err. parseDevicesString ParseIP input = Return (Inl err)"
    by (simp add: r)
  moreover have "parseDevicesString ParseIP input = Return (Inl (InvalidAddress (partsOf ?d ! 3)))"
    if "length (partsOf ?d) = 8" "\<forall>j<i. \<exists>dev. parseDevice ParseIP (devStrsOf input ! j) = Inr dev"
    using loop_first_error [OF assms(2) parseDevice_bad_mac [OF that(1) assms(4)] that(2)]
    by (simp add: r)
  ultimately show ?thesis by blast
qed

text \<open>
  The theorem at an input whose first device string decodes and whose second one has the
  MAC field \<open>nomac\<close>.
\<close>

theorem parseDevicesString_invalid_address_witness:
  "devStrsOf ''2@0;10.0.0.2;phone;aa:aa:aa:aa:aa:aa;wifi;-50;100;x@0;10.0.0.3;tv;nomac;eth;;;x''
     = [''0;10.0.0.2;phone;aa:aa:aa:aa:aa:aa;wifi;-50;100;x'', ''0;10.0.0.3;tv;nomac;eth;;;x'']
   \<and> partsOf ''0;10.0.0.3;tv;nomac;eth;;;x'' ! 3 = ''nomac''
   \<and> ParseMAC ''nomac'' = Inl (InvalidAddress ''nomac'')
   \<and> parseDevicesString (\<lambda>_. None)
        ''2@0;10.0.0.2;phone;aa:aa:aa:aa:aa:aa;wifi;-50;100;x@0;10.0.0.3;tv;nomac;eth;;;x''
       = Return (Inl (InvalidAddress ''nomac''))"
proof -
  let ?input = "''2@0;10.0.0.2;phone;aa:aa:aa:aa:aa:aa;wifi;-50;100;x@0;10.0.0.3;tv;nomac;eth;;;x''"
  have h1: "2 \<le> length ?input" by simp
  have h2: "1 < length (devStrsOf ?input)" by (simp add: devStrs_phone_nomac)
  have h3: "3 < length (partsOf (devStrsOf ?input ! 1))" by (simp add: devStrs_phone_nomac parts_nomac)
  have h4: "ParseMAC (partsOf (devStrsOf ?input ! 1) ! 3) = Inl (InvalidAddress ''nomac'')"
    by (simp add: devStrs_phone_nomac parts_nomac ParseMAC_short)
  have h5: "length (partsOf (devStrsOf ?input ! 1)) = 8
      \<and> (\<forall>j<1. \<exists>dev. parseDevice (\<lambda>_. None) (devStrsOf ?input ! j) = Inr dev)"
    by (simp add: devStrs_phone_nomac parts_nomac parseDevice_phone)
  from parseDevicesString_invalid_address [OF h1 h2 h3 h4, of "\<lambda>_. None"] h5
  have "parseDevicesString (\<lambda>_. None) ?input = Return (Inl (InvalidAddress (partsOf (devStrsOf ?input ! 1) ! 3)))"
    by blast
  then show ?thesis by (simp add: devStrs_phone_nomac parts_nomac ParseMAC_short)
qed

text \<open>
  C5, the case left out. The two conditions are needed: when an earlier device string has
  the wrong number of fields, the decode returns \<open>MalformedRecord\<close> for it, although
  field 3 of a later device string does not parse.
\<close>

theorem parseDevicesString_invalid_address_counterexample:
  "devStrsOf ''2@short@0;10.0.0.3;tv;nomac;eth;;;x'' = [''short'', ''0;10.0.0.3;tv;nomac;eth;;;x'']
   \<and> partsOf ''0;10.0.0.3;tv;nomac;eth;;;x'' ! 3 = ''nomac''
   \<and> ParseMAC ''nomac'' = Inl (InvalidAddress ''nomac'')
   \<and> parseDevicesString (\<lambda>_. None) ''2@short@0;10.0.0.3;tv;nomac;eth;;;x''
       = Return (Inl (MalformedRecord ''short''))"
  by (simp add: parseDevicesString_Return devStrs_short_nomac parts_nomac ParseMAC_short parseDevice_short)

text \<open>
  C6 (as amended). Take a device string that the loop reaches (every earlier device
  string decodes without error), with exactly 8 fields and a MAC that parses. If each of
  field 5 and field 6 is empty or a number that \<open>Atoi\<close> accepts, the device is
  constructed, with 0 for an empty field; so in every decoded list the device of an empty
  signal or link-rate field has the value 0 there. If field 5 is non-empty and not
  numeric, the decode returns \<open>InvalidNumber\<close> for field 5; if field 6 is non-empty and
  not numeric, the decode returns \<open>InvalidNumber\<close>, for field 5 or field 6. The example
  input decodes to exactly two devices, the second with signal 0 and link rate 0.
\<close>

theorem parseDevicesString_numeric_fields:
  assumes "2 \<le> length input"
    and "i < length (devStrsOf input)"
    and "\<forall>j<i. \<exists>dev. parseDevice ParseIP (devStrsOf input ! j) = Inr dev"
    and "p = partsOf (devStrsOf input ! i)"
    and "length p = 8"
    and "ParseMAC (p ! 3) = Inr mac"
  shows "((p ! 5 = [] \<or> snd (Atoi (p ! 5)) = None) \<and> (p ! 6 = [] \<or> snd (Atoi (p ! 6)) = None) \<longrightarrow>
            parseDevice ParseIP (devStrsOf input ! i) =
              Inr \<lparr>IP = ParseIP (p ! 1), Name = p ! 2, MAC = mac, Type = p ! 4,
                   LinkRate = (if p ! 6 = [] then 0 else fst (Atoi (p ! 6))),
                   Signal = (if p ! 5 = [] then 0 else fst (Atoi (p ! 5)))\<rparr>)
       \<and> (p ! 5 \<noteq> [] \<and> \<not> isNumeric (p ! 5) \<longrightarrow>
            (\<exists>e. parseDevicesString ParseIP input = Return (Inl (InvalidNumber (p ! 5) e))))
       \<and> (p ! 6 \<noteq> [] \<and> \<not> isNumeric (p ! 6) \<longrightarrow>
            (\<exists>s e. parseDevicesString ParseIP input = Return (Inl (InvalidNumber s e))
                  \<and> (s = p ! 5 \<or> s = p ! 6)))
       \<and> (\<forall>devList. parseDevicesString ParseIP input = Return (Inr devList) \<longrightarrow>
            (p ! 5 = [] \<longrightarrow> Signal (devList ! i) = 0) \<and> (p ! 6 = [] \<longrightarrow> LinkRate (devList ! i) = 0))
       \<and> parseDevicesString ParseIP
            ''2@0;10.0.0.2;phone;aa:aa:aa:aa:aa:aa;wifi;-50;100;x@0;10.0.0.3;tv;bb:bb:bb:bb:bb:bb;eth;;;x''
          = Return (Inr [\<lparr>IP = ParseIP ''10.0.0.2'', Name = ''phone'',
                          MAC = [0xaa, 0xaa, 0xaa, 0xaa, 0xaa, 0xaa],
                          Type = ''wifi'', LinkRate = 100, Signal = - 50\<rparr>,
                         \<lparr>IP = ParseIP ''10.0.0.3'', Name = ''tv'',
                          MAC = [0xbb, 0xbb, 0xbb, 0xbb, 0xbb, 0xbb],
                          Type = ''eth'', LinkRate = 0, Signal = 0\<rparr>])"
proof -
  let ?d = "devStrsOf input ! i"
  let ?e5 = "if p ! 5 \<noteq> [] then snd (Atoi (p ! 5)) else None"
  let ?e6 = "if p ! 6 \<noteq> [] then snd (Atoi (p ! 6)) else None"
  have len: "length (partsOf ?d) = 8" and m: "ParseMAC (partsOf ?d ! 3) = Inr mac"
    using assms(4,5,6) by simp_all
  have r: "parseDevicesString ParseIP input = Return (parseDevices_loop ParseIP (devStrsOf input))"
    by (rule parseDevicesString_Return [OF assms(1)])
  have body: "parseDevice ParseIP ?d =
     (case ?e5 of Some e \<Rightarrow> Inl e
      | None \<Rightarrow> (case ?e6 of Some e \<Rightarrow> Inl e
          | None \<Rightarrow> Inr \<lparr>IP = ParseIP (p ! 1), Name = p ! 2, MAC = mac, Type = p ! 4,
                         LinkRate = fst (Atoi (p ! 6)), Signal = fst (Atoi (p ! 5))\<rparr>))"
    unfolding assms(4) by (rule parseDevice_fields [OF len m])
  have fails: "parseDevicesString ParseIP input = Return (Inl err)"
    if "parseDevice ParseIP ?d = Inl err" for err
    using loop_first_error [OF assms(2) that assms(3)] by (simp add: r)
  have c1: "parseDevice ParseIP ?d =
              Inr \<lparr>IP = ParseIP (p ! 1), Name = p ! 2, MAC = mac, Type = p ! 4,
                   LinkRate = (if p ! 6 = [] then 0 else fst (Atoi (p ! 6))),
                   Signal = (if p ! 5 = [] then 0 else fst (Atoi (p ! 5)))\<rparr>"
    if "(p ! 5 = [] \<or> snd (Atoi (p ! 5)) = None) \<and> (p ! 6 = [] \<or> snd (Atoi (p ! 6)) = None)"
  proof -
    have "?e5 = None" and "?e6 = None" using that by auto
    then show ?thesis unfolding body by (auto simp: Atoi_Nil)
  qed
  have c2: "\<exists>e. parseDevicesString ParseIP input = Return (Inl (InvalidNumber (p ! 5) e))"
    if "p ! 5 \<noteq> [] \<and> \<not> isNumeric (p ! 5)"
  proof -
    from that Atoi_not_numeric [of "p ! 5"] obtain e where
      "snd (Atoi (p ! 5)) = Some (InvalidNumber (p ! 5) e)" by blast
    then have "parseDevice ParseIP ?d = Inl (InvalidNumber (p ! 5) e)"
      using that unfolding body by simp
    then show ?thesis using fails by blast
  qed
  have c3: "\<exists>s e. parseDevicesString ParseIP input = Return (Inl (InvalidNumber s e))
                  \<and> (s = p ! 5 \<or> s = p ! 6)"
    if "p ! 6 \<noteq> [] \<and> \<not> isNumeric (p ! 6)"
  proof (cases ?e5)
    case None
    from that Atoi_not_numeric [of "p ! 6"] obtain e where
      "snd (Atoi (p ! 6)) = Some (InvalidNumber (p ! 6) e)" by blast
    then have "parseDevice ParseIP ?d = Inl (InvalidNumber (p ! 6) e)"
      using that None unfolding body by simp
    then show ?thesis using fails by blast
  next
    case (Some err)
    then have "snd (Atoi (p ! 5)) = Some err" by (simp split: if_splits)
    then obtain e where "err = InvalidNumber (p ! 5) e" using Atoi_error by blast
    then have "parseDevice ParseIP ?d = Inl (InvalidNumber (p ! 5) e)"
      using Some unfolding body by simp
    then show ?thesis using fails by blast
  qed
  have c4: "(p ! 5 = [] \<longrightarrow> Signal (devList ! i) = 0) \<and> (p ! 6 = [] \<longrightarrow> LinkRate (devList ! i) = 0)"
    if "parseDevicesString ParseIP input = Return (Inr devList)" for devList
  proof -
    from that have "parseDevices_loop ParseIP (devStrsOf input) = Inr devList" by (simp add: r)
    from loop_Inr [OF this] assms(2) have "parseDevice ParseIP ?d = Inr (devList ! i)" by simp
    then have "devList ! i = \<lparr>IP = ParseIP (p ! 1), Name = p ! 2, MAC = mac, Type = p ! 4,
                         LinkRate = fst (Atoi (p ! 6)), Signal = fst (Atoi (p ! 5))\<rparr>"
      unfolding body by (auto split: option.splits)
    then show ?thesis by (simp add: Atoi_Nil)
  qed
  show ?thesis
    using c1 c2 c3 c4 parseDevicesString_example [of ParseIP] by blast
qed

text \<open>
  The theorem at the second device string of the example input, whose numeric fields are
  empty, and at an input whose signal field is \<open>abc\<close>.
\<close>

theorem parseDevicesString_numeric_fields_witness:
  "parseDevice (\<lambda>_. None) ''0;10.0.0.3;tv;bb:bb:bb:bb:bb:bb;eth;;;x'' =
      Inr \<lparr>IP = None, Name = ''tv'', MAC = [0xbb, 0xbb, 0xbb, 0xbb, 0xbb, 0xbb],
           Type = ''eth'', LinkRate = 0, Signal = 0\<rparr>
   \<and> (\<exists>e. parseDevicesString (\<lambda>_. None) ''1@0;10.0.0.2;phone;aa:aa:aa:aa:aa:aa;wifi;abc;100;x''
            = Return (Inl (InvalidNumber ''abc'' e)))"
proof -
  let ?ex = "''2@0;10.0.0.2;phone;aa:aa:aa:aa:aa:aa;wifi;-50;100;x@0;10.0.0.3;tv;bb:bb:bb:bb:bb:bb;eth;;;x''"
  let ?tv = "[''0'', ''10.0.0.3'', ''tv'', ''bb:bb:bb:bb:bb:bb'', ''eth'', '''', '''', ''x'']"
  let ?bad = "''1@0;10.0.0.2;phone;aa:aa:aa:aa:aa:aa;wifi;abc;100;x''"
  let ?abc = "[''0'', ''10.0.0.2'', ''phone'', ''aa:aa:aa:aa:aa:aa'', ''wifi'', ''abc'', ''100'', ''x'']"
  have a1: "2 \<le> length ?ex" by simp
  have a2: "1 < length (devStrsOf ?ex)" by (simp add: devStrs_example)
  have a3: "\<forall>j<1. \<exists>dev. parseDevice (\<lambda>_. None) (devStrsOf ?ex ! j) = Inr dev"
    by (simp add: devStrs_example parseDevice_phone)
  have a4: "?tv = partsOf (devStrsOf ?ex ! 1)" by (simp add: devStrs_example parts_tv)
  have a5: "length ?tv = 8" by simp
  have a6: "ParseMAC (?tv ! 3) = Inr [0xbb, 0xbb, 0xbb, 0xbb, 0xbb, 0xbb]" by (simp add: ParseMAC_bb)
  have e: "(?tv ! 5 = [] \<or> snd (Atoi (?tv ! 5)) = None) \<and> (?tv ! 6 = [] \<or> snd (Atoi (?tv ! 6)) = None)"
    by simp
  from parseDevicesString_numeric_fields [OF a1 a2 a3 a4 a5 a6, THEN conjunct1] e
  have w1: "parseDevice (\<lambda>_. None) (devStrsOf ?ex ! 1) =
      Inr \<lparr>IP = None, Name = ?tv ! 2, MAC = [0xbb, 0xbb, 0xbb, 0xbb, 0xbb, 0xbb], Type = ?tv ! 4,
           LinkRate = (if ?tv ! 6 = [] then 0 else fst (Atoi (?tv ! 6))),
           Signal = (if ?tv ! 5 = [] then 0 else fst (Atoi (?tv ! 5)))\<rparr>"
    by blast
  have b1: "2 \<le> length ?bad" by simp
  have b2: "0 < length (devStrsOf ?bad)" by (simp add: devStrs_abc)
  have b3: "\<forall>j<0. \<exists>dev. parseDevice (\<lambda>_. None) (devStrsOf ?bad ! j) = Inr dev" by simp
  have b4: "?abc = partsOf (devStrsOf ?bad ! 0)" by (simp add: devStrs_abc parts_abc)
  have b5: "length ?abc = 8" by simp
  have b6: "ParseMAC (?abc ! 3) = Inr [0xaa, 0xaa, 0xaa, 0xaa, 0xaa, 0xaa]" by (simp add: ParseMAC_aa)
  have f: "?abc ! 5 \<noteq> [] \<and> \<not> isNumeric (?abc ! 5)" by (simp add: not_numeric_abc)
  from parseDevicesString_numeric_fields [OF b1 b2 b3 b4 b5 b6, THEN conjunct2, THEN conjunct1] f
  have w2: "\<exists>e. parseDevicesString (\<lambda>_. None) ?bad = Return (Inl (InvalidNumber (?abc ! 5) e))"
    by blast
  show ?thesis using w1 w2 by (simp add: devStrs_example)
qed

text \<open>
  C6, the case left out. The condition on the MAC is needed: the MAC is parsed before
  the numbers, so a device string with the MAC field \<open>zz\<close> and the signal field \<open>abc\<close>
  makes the decode return \<open>InvalidAddress\<close>, not \<open>InvalidNumber\<close>.
\<close>

theorem parseDevicesString_numeric_fields_counterexample:
  "partsOf ''0;10.0.0.2;phone;zz;wifi;abc;100;x'' ! 5 = ''abc''
   \<and> \<not> isNumeric ''abc''
   \<and> parseDevicesString (\<lambda>_. None) ''1@0;10.0.0.2;phone;zz;wifi;abc;100;x''
       = Return (Inl (InvalidAddress ''zz''))"
  by (simp add: parseDevicesString_Return devStrs_zz parts_zz not_numeric_abc parseDevice_zz)

text \<open>
  C9. Field 1 is parsed best-effort. A device string decodes exactly when it has 8 fields,
  a MAC that parses and, in each of fields 5 and 6, nothing or a number that \<open>Atoi\<close>
  accepts, whatever field 1 holds and whatever \<open>ParseIP\<close> returns for it; the whole
  input of at least two bytes decodes exactly when each of its device strings does, and
  then each device carries in \<open>IP\<close> what \<open>ParseIP\<close> returns for field 1. Whether the
  call panics and which error it returns do not depend on \<open>ParseIP\<close>. The scan of
  \<open>net.ParseIP\<close> returns nil for the empty string and for text with neither \<open>.\<close> nor
  \<open>:\<close>, so such a field 1 gives a nil \<open>IP\<close>.
\<close>

theorem parseDevicesString_IP_best_effort:
  "((\<exists>dev. parseDevice ParseIP devStr = Inr dev) = decodable devStr)
   \<and> (decodable devStr \<longrightarrow>
        parseDevice ParseIP devStr =
          Inr \<lparr>IP = ParseIP (partsOf devStr ! 1), Name = partsOf devStr ! 2,
               MAC = projr (ParseMAC (partsOf devStr ! 3)), Type = partsOf devStr ! 4,
               LinkRate = fst (Atoi (partsOf devStr ! 6)),
               Signal = fst (Atoi (partsOf devStr ! 5))\<rparr>)
   \<and> (2 \<le> length input \<longrightarrow>
        ((\<exists>devList. parseDevicesString ParseIP input = Return (Inr devList))
           = (\<forall>d\<in>set (devStrsOf input). decodable d)))
   \<and> (2 \<le> length input \<and> (\<forall>d\<in>set (devStrsOf input). decodable d) \<longrightarrow>
        parseDevicesString ParseIP input =
          Return (Inr (map (\<lambda>d. \<lparr>IP = ParseIP (partsOf d ! 1), Name = partsOf d ! 2,
                                   MAC = projr (ParseMAC (partsOf d ! 3)), Type = partsOf d ! 4,
                                   LinkRate = fst (Atoi (partsOf d ! 6)),
                                   Signal = fst (Atoi (partsOf d ! 5))\<rparr>)
                           (devStrsOf input))))
   \<and> ((parseDevicesString ParseIP input = Panic) = (parseDevicesString ParseIP' input = Panic))
   \<and> ((parseDevicesString ParseIP input = Return (Inl err))
        = (parseDevicesString ParseIP' input = Return (Inl err)))
   \<and> (parseDevicesString ParseIP input = Return (Inr devList) \<longrightarrow>
        length devList = length (devStrsOf input)
        \<and> (\<forall>i<length devList. IP (devList ! i) = ParseIP (partsOf (devStrsOf input ! i) ! 1)))
   \<and> net_ParseIP IPv4parser IPv6parser [] = None
   \<and> ((\<forall>c\<in>set s. c \<noteq> CHR ''.'' \<and> c \<noteq> CHR '':'') \<longrightarrow>
        net_ParseIP IPv4parser IPv6parser s = None)"
proof -
  have c1: "(\<exists>dev. parseDevice ParseIP devStr = Inr dev) = decodable devStr"
    by (rule parseDevice_decodable)
  have c2: "parseDevice ParseIP devStr =
          Inr \<lparr>IP = ParseIP (partsOf devStr ! 1), Name = partsOf devStr ! 2,
               MAC = projr (ParseMAC (partsOf devStr ! 3)), Type = partsOf devStr ! 4,
               LinkRate = fst (Atoi (partsOf devStr ! 6)),
               Signal = fst (Atoi (partsOf devStr ! 5))\<rparr>"
    if "decodable devStr"
    by (rule parseDevice_of_decodable [OF that])
  have c3: "(\<exists>devList. parseDevicesString ParseIP input = Return (Inr devList))
           = (\<forall>d\<in>set (devStrsOf input). decodable d)"
    if "2 \<le> length input"
    using loop_decodes_iff [of ParseIP "devStrsOf input"]
    by (simp add: parseDevicesString_Return [OF that])
  have c4: "parseDevicesString ParseIP input =
          Return (Inr (map (\<lambda>d. \<lparr>IP = ParseIP (partsOf d ! 1), Name = partsOf d ! 2,
                                   MAC = projr (ParseMAC (partsOf d ! 3)), Type = partsOf d ! 4,
                                   LinkRate = fst (Atoi (partsOf d ! 6)),
                                   Signal = fst (Atoi (partsOf d ! 5))\<rparr>)
                           (devStrsOf input)))"
    if "2 \<le> length input \<and> (\<forall>d\<in>set (devStrsOf input). decodable d)"
  proof -
    from that have l: "2 \<le> length input" and a: "\<forall>d\<in>set (devStrsOf input). decodable d"
      by blast+
    have "map (\<lambda>d. projr (parseDevice ParseIP d)) (devStrsOf input) =
        map (\<lambda>d. \<lparr>IP = ParseIP (partsOf d ! 1), Name = partsOf d ! 2,
                   MAC = projr (ParseMAC (partsOf d ! 3)), Type = partsOf d ! 4,
                   LinkRate = fst (Atoi (partsOf d ! 6)),
                   Signal = fst (Atoi (partsOf d ! 5))\<rparr>) (devStrsOf input)"
      using a by (intro map_cong refl) (simp add: parseDevice_of_decodable)
    then show ?thesis
      using loop_of_decodable [OF a, of ParseIP] by (simp add: parseDevicesString_Return [OF l])
  qed
  have p: "(parseDevicesString ParseIP input = Panic) = (parseDevicesString ParseIP' input = Panic)"
    by (simp add: parseDevicesString_def)
  have e: "(parseDevicesString ParseIP input = Return (Inl err))
        = (parseDevicesString ParseIP' input = Return (Inl err))"
    using loop_error_indep [of ParseIP _ err ParseIP'] by (simp add: parseDevicesString_def)
  have s: "length devList = length (devStrsOf input)
        \<and> (\<forall>i<length devList. IP (devList ! i) = ParseIP (partsOf (devStrsOf input ! i) ! 1))"
    if "parseDevicesString ParseIP input = Return (Inr devList)"
  proof -
    from that have "parseDevices_loop ParseIP (devStrsOf input) = Inr devList"
      by (simp add: parseDevicesString_def devStrsOf_def split: if_splits)
    from loop_Inr [OF this] have l: "length devList = length (devStrsOf input)"
      and a: "\<forall>i<length (devStrsOf input). parseDevice ParseIP (devStrsOf input ! i) = Inr (devList ! i)"
      by blast+
    have "IP (devList ! i) = ParseIP (partsOf (devStrsOf input ! i) ! 1)" if "i < length devList" for i
    proof -
      from that l a have "parseDevice ParseIP (devStrsOf input ! i) = Inr (devList ! i)" by simp
      then show ?thesis by (rule parseDevice_IP)
    qed
    then show ?thesis using l by blast
  qed
  have n0: "net_ParseIP IPv4parser IPv6parser [] = None"
    by (simp add: net_ParseIP_def)
  have n1: "net_ParseIP IPv4parser IPv6parser s = None"
    if "\<forall>c\<in>set s. c \<noteq> CHR ''.'' \<and> c \<noteq> CHR '':''"
    using net_ParseIP_loop_none [OF that] by (simp add: net_ParseIP_def)
  show ?thesis
    using c1 c2 c3 c4 p e s n0 n1 by blast
qed

text \<open>
  The theorem at an input whose first device string has an empty field 1 and whose
  second has the field 1 \<open>garbage\<close>, with IPv4 and IPv6 parsers that accept every text:
  both devices are decoded, each with a nil \<open>IP\<close>.
\<close>

theorem parseDevicesString_IP_best_effort_witness:
  "decodable ''0;;phone;aa:aa:aa:aa:aa:aa;wifi;-50;100;x''
   \<and> decodable ''0;garbage;tv;bb:bb:bb:bb:bb:bb;eth;;;x''
   \<and> net_ParseIP (\<lambda>_. Some [1, 2, 3, 4]) (\<lambda>_. Some [6]) '''' = None
   \<and> net_ParseIP (\<lambda>_. Some [1, 2, 3, 4]) (\<lambda>_. Some [6]) ''garbage'' = None
   \<and> parseDevicesString (net_ParseIP (\<lambda>_. Some [1, 2, 3, 4]) (\<lambda>_. Some [6]))
       ''2@0;;phone;aa:aa:aa:aa:aa:aa;wifi;-50;100;x@0;garbage;tv;bb:bb:bb:bb:bb:bb;eth;;;x''
     = Return (Inr [\<lparr>IP = None, Name = ''phone'', MAC = [0xaa, 0xaa, 0xaa, 0xaa, 0xaa, 0xaa],
                     Type = ''wifi'', LinkRate = 100, Signal = - 50\<rparr>,
                    \<lparr>IP = None, Name = ''tv'', MAC = [0xbb, 0xbb, 0xbb, 0xbb, 0xbb, 0xbb],
                     Type = ''eth'', LinkRate = 0, Signal = 0\<rparr>])"
proof -
  let ?v4 = "\<lambda>_ :: string. Some [1, 2, 3, 4 :: byte]"
  let ?v6 = "\<lambda>_ :: string. Some [6 :: byte]"
  let ?pip = "net_ParseIP ?v4 ?v6"
  let ?input = "''2@0;;phone;aa:aa:aa:aa:aa:aa;wifi;-50;100;x@0;garbage;tv;bb:bb:bb:bb:bb:bb;eth;;;x''"
  note t = parseDevicesString_IP_best_effort [where ParseIP = ?pip and input = ?input
      and IPv4parser = ?v4 and IPv6parser = ?v6 and s = "''garbage''"]
  have h: "2 \<le> length ?input \<and> (\<forall>d\<in>set (devStrsOf ?input). decodable d)"
    by (simp add: devStrs_noip_garbage decodable_noip decodable_garbage)
  have g: "\<forall>c\<in>set ''garbage''. c \<noteq> CHR ''.'' \<and> c \<noteq> CHR '':''"
    by simp
  have n0: "?pip '''' = None"
    using t by blast
  have n1: "?pip ''garbage'' = None"
    using t g by blast
  have "parseDevicesString ?pip ?input =
          Return (Inr (map (\<lambda>d. \<lparr>IP = ?pip (partsOf d ! 1), Name = partsOf d ! 2,
                                   MAC = projr (ParseMAC (partsOf d ! 3)), Type = partsOf d ! 4,
                                   LinkRate = fst (Atoi (partsOf d ! 6)),
                                   Signal = fst (Atoi (partsOf d ! 5))\<rparr>)
                           (devStrsOf ?input)))"
    using t h by blast
  then have "parseDevicesString ?pip ?input
     = Return (Inr [\<lparr>IP = None, Name = ''phone'', MAC = [0xaa, 0xaa, 0xaa, 0xaa, 0xaa, 0xaa],
                     Type = ''wifi'', LinkRate = 100, Signal = - 50\<rparr>,
                    \<lparr>IP = None, Name = ''tv'', MAC = [0xbb, 0xbb, 0xbb, 0xbb, 0xbb, 0xbb],
                     Type = ''eth'', LinkRate = 0, Signal = 0\<rparr>])"
    by (simp add: devStrs_noip_garbage parts_noip parts_garbage ParseMAC_aa ParseMAC_bb
          Atoi_m50 Atoi_100 Atoi_Nil n0 n1)
  then show ?thesis
    using n0 n1 decodable_noip decodable_garbage by blast
qed

text \<open>
  C10. With every index expression of the function checked, the call panics exactly on
  the inputs shorter than two bytes, where the slice expression \<open>devices[2:]\<close> is out of
  range, and returns (a device list or an error) exactly on the inputs of at least two
  bytes: the loop body never panics, since \<open>parts[1]\<close> to \<open>parts[6]\<close> are read only past
  the guard \<open>len(parts) != 8\<close>, and \<open>devList[i]\<close> is in range of the slice that \<open>make\<close>
  allocated. The library functions are taken to return, as their documentation says.
\<close>

theorem parseDevicesString_panics_below_two:
  "((parseDevicesString_checked ParseIP input = Panic) = (length input < 2))
   \<and> ((\<exists>r. parseDevicesString_checked ParseIP input = Return r) = (2 \<le> length input))
   \<and> parseDevice_checked ParseIP devStr \<noteq> None
   \<and> parseDevicesString_checked ParseIP input = parseDevicesString ParseIP input
   \<and> ((parseDevicesString ParseIP input = Panic) = (length input < 2))
   \<and> ((\<exists>r. parseDevicesString ParseIP input = Return r) = (2 \<le> length input))
   \<and> parseDevicesString_checked ParseIP '''' = Panic
   \<and> parseDevicesString_checked ParseIP ''2'' = Panic
   \<and> parseDevicesString_checked ParseIP ''2@'' = Return (Inl (MalformedRecord ''''))"
proof -
  have body: "parseDevice_checked ParseIP devStr \<noteq> None"
    by (simp add: parseDevice_checked_eq)
  have eq: "parseDevicesString_checked ParseIP x = parseDevicesString ParseIP x" for x
    by (rule parseDevicesString_checked_eq)
  have p: "(parseDevicesString ParseIP input = Panic) = (length input < 2)"
    by (simp add: parseDevicesString_def)
  have r: "(\<exists>r. parseDevicesString ParseIP input = Return r) = (2 \<le> length input)"
    by (auto simp: parseDevicesString_def)
  have e0: "parseDevicesString ParseIP '''' = Panic" and e1: "parseDevicesString ParseIP ''2'' = Panic"
    by (simp_all add: parseDevicesString_def)
  have e2: "parseDevicesString ParseIP ''2@'' = Return (Inl (MalformedRecord ''''))"
    by (simp add: parseDevicesString_def parseDevice_def)
  show ?thesis
    using body p r e0 e1 e2 by (simp add: eq)
qed

end
